theory Spec2Isabelle
  imports Main
begin

section \<open>The browser session the page objects drive\<close>

text \<open>
  The repository is a Playwright test harness: every function acts on a live page through
  Playwright calls and observes it through locators. The page is external state. It is
  modelled as a value of an arbitrary type \<open>'u\<close>, and the Playwright calls the sources
  make are the fields of an environment record, each a function on \<open>'u\<close>. A session
  pairs the page with the wall clock read by \<^verbatim>\<open>Date.now()\<close> and with the ordered trace of
  the calls made so far, which is what the properties below speak about.

  Locators are kept as the expressions that build them.
\<close>

datatype locator =
    GetByLabel string
  | GetByRole string string
  | GetByTestId string
  | Locator string
  | Within locator locator

text \<open>Conditions Playwright waits for: \<^verbatim>\<open>locator.waitFor\<close>, \<^verbatim>\<open>expect(locator).toBeVisible\<close>,
  \<^verbatim>\<open>expect(locator).toHaveAttribute(name, value)\<close>, \<^verbatim>\<open>page.waitForLoadState(state)\<close>.\<close>

datatype condition =
    Visible locator
  | HasAttribute locator string string
  | LoadState string

text \<open>\<^verbatim>\<open>page.keyboard.press(key)\<close>, \<^verbatim>\<open>page.keyboard.down(key)\<close>, \<^verbatim>\<open>page.keyboard.up(key)\<close>.\<close>

datatype key_event = Press string | Down string | Up string

datatype event =
    Keyboard key_event
  | WaitForTimeout nat
  | Polled "string option"
  | Count locator nat
  | GetAttribute locator string "string option"
  | Awaited condition bool
  | ConsoleWarn string

text \<open>
  What an environment answers. Every call is taken to return. \<open>lag\<close> is the time, in
  milliseconds, a call takes beyond what it was asked to wait, read off the page state the
  call leaves behind: the clock is taken never to run backwards, and
  \<^verbatim>\<open>waitForTimeout(ms)\<close> to take at least \<open>ms\<close>. \<open>fulfilled\<close> says whether an awaited
  condition is met within Playwright's own timeout; when it is not, Playwright throws. Reads
  and key dispatch themselves are taken to succeed (a closed page is outside the sources).
  Times are whole milliseconds and step counts are integers.
\<close>

record 'u env =
  keyboard :: "key_event \<Rightarrow> 'u \<Rightarrow> 'u"
  timePasses :: "nat \<Rightarrow> 'u \<Rightarrow> 'u"
  lag :: "'u \<Rightarrow> nat"
  count :: "locator \<Rightarrow> 'u \<Rightarrow> nat \<times> 'u"
  getAttribute :: "locator \<Rightarrow> string \<Rightarrow> 'u \<Rightarrow> string option \<times> 'u"
  fulfilled :: "condition \<Rightarrow> 'u \<Rightarrow> bool \<times> 'u"

record 'u session =
  ui :: 'u
  clock :: int
  trace :: "event list"

datatype error =
    UnknownMenuItem string
  | ExpectFailed condition
  | TimeoutError condition
  | NotALocator

definition settle :: "'u env \<Rightarrow> 'u \<Rightarrow> event \<Rightarrow> 'u session \<Rightarrow> 'u session" where
  "settle env u' e s =
     \<lparr>ui = u', clock = clock s + int (lag env u'), trace = trace s @ [e]\<rparr>"

definition keyboardDispatch :: "'u env \<Rightarrow> key_event \<Rightarrow> 'u session \<Rightarrow> 'u session" where
  "keyboardDispatch env k s = settle env (keyboard env k (ui s)) (Keyboard k) s"

definition waitForTimeout :: "'u env \<Rightarrow> nat \<Rightarrow> 'u session \<Rightarrow> 'u session" where
  "waitForTimeout env ms s =
     (let u' = timePasses env ms (ui s) in
      \<lparr>ui = u', clock = clock s + int ms + int (lag env u'),
       trace = trace s @ [WaitForTimeout ms]\<rparr>)"

text \<open>One call of a focus accessor \<open>getValueFn\<close>: it reads the page and returns a token.\<close>

definition invoke ::
  "'u env \<Rightarrow> ('u \<Rightarrow> string option \<times> 'u) \<Rightarrow> 'u session \<Rightarrow> string option \<times> 'u session" where
  "invoke env getValueFn s =
     (case getValueFn (ui s) of (v, u') \<Rightarrow> (v, settle env u' (Polled v) s))"

definition await :: "'u env \<Rightarrow> condition \<Rightarrow> 'u session \<Rightarrow> bool \<times> 'u session" where
  "await env c s =
     (case fulfilled env c (ui s) of (ok, u') \<Rightarrow> (ok, settle env u' (Awaited c ok) s))"

definition readAttribute ::
  "'u env \<Rightarrow> locator \<Rightarrow> string \<Rightarrow> 'u session \<Rightarrow> string option \<times> 'u session" where
  "readAttribute env l a s =
     (case getAttribute env l a (ui s) of (v, u') \<Rightarrow> (v, settle env u' (GetAttribute l a v) s))"

definition readCount :: "'u env \<Rightarrow> locator \<Rightarrow> 'u session \<Rightarrow> nat \<times> 'u session" where
  "readCount env l s =
     (case count env l (ui s) of (n, u') \<Rightarrow> (n, settle env u' (Count l n) s))"

definition console :: "event \<Rightarrow> 'u session \<Rightarrow> 'u session" where
  "console e s = s\<lparr>trace := trace s @ [e]\<rparr>"

text \<open>The key events among a list of trace events, in order.\<close>

fun commands :: "event list \<Rightarrow> key_event list" where
  "commands [] = []"
| "commands (Keyboard k # es) = k # commands es"
| "commands (e # es) = commands es"

section \<open>src/utils/constants.js\<close>

definition LONG_PRESS_DURATION :: nat where "LONG_PRESS_DURATION = 1500"
definition FOCUS_CHANGE :: int where "FOCUS_CHANGE = 500"
definition POLLING :: int where "POLLING = 1000"
definition KEY_PRESS_DELAY :: int where "KEY_PRESS_DELAY = 100"
definition POLLING_INTERVAL :: nat where "POLLING_INTERVAL = 50"

definition MAX_MENU_STEPS :: int where "MAX_MENU_STEPS = 10"
definition MAX_RAIL_STEPS :: int where "MAX_RAIL_STEPS = 50"
definition MAX_APP_SEARCH_STEPS :: int where "MAX_APP_SEARCH_STEPS = 100"
definition MAX_DOWN_STEPS :: int where "MAX_DOWN_STEPS = 15"

section \<open>src/utils/navigationHelpers.js\<close>

text \<open>
  A string is a list of code units below 256, read as the code points U+0000 to U+00FF
  (Basic Latin and Latin-1 Supplement); a token is a string or \<^verbatim>\<open>null\<close> (\<open>None\<close>).
  On these code points \<^verbatim>\<open>String.prototype.toLowerCase\<close> maps each capital letter to the
  letter 32 above it: \<open>A\<close> to \<open>Z\<close> (65 to 90) and the Latin-1 capitals U+00C0 to U+00D6 and
  U+00D8 to U+00DE (192 to 214 and 216 to 222; 215 is the multiplication sign). Every other
  code point, the sharp s (223) among them, is left as it is.
\<close>

definition lowerChar :: "char \<Rightarrow> char" where
  "lowerChar c =
     (let n = (of_char c :: nat)
      in if (65 \<le> n \<and> n \<le> 90) \<or> (192 \<le> n \<and> n \<le> 214) \<or> (216 \<le> n \<and> n \<le> 222)
         then char_of (n + 32) else c)"

definition toLowerCase :: "string \<Rightarrow> string" where
  "toLowerCase s = map lowerChar s"

text \<open>
  \<^verbatim>\<open>String.prototype.trim\<close> strips white space and line terminators from both ends. Below
  256 these are tab, line feed, vertical tab, form feed, carriage return (9 to 13), space
  (32) and the no-break space U+00A0 (160).
\<close>

definition isWhiteSpace :: "char \<Rightarrow> bool" where
  "isWhiteSpace c =
     (let n = (of_char c :: nat) in (9 \<le> n \<and> n \<le> 13) \<or> n = 32 \<or> n = 160)"

definition trim :: "string \<Rightarrow> string" where
  "trim s = rev (dropWhile isWhiteSpace (rev (dropWhile isWhiteSpace s)))"

text \<open>JavaScript truthiness of a token: \<^verbatim>\<open>null\<close> and the empty string are falsy.\<close>

fun truthy :: "string option \<Rightarrow> bool" where
  "truthy None = False"
| "truthy (Some s) = (s \<noteq> [])"

text \<open>\<^verbatim>\<open>return value ? value.toLowerCase().trim() : '';\<close>\<close>

definition normalise :: "string option \<Rightarrow> string" where
  "normalise v = (if truthy v then trim (toLowerCase (the v)) else [])"

text \<open>
  \<^verbatim>\<open>
  const startTime = Date.now();
  while (Date.now() - startTime < timeout) {
    const currentValue = await getValueFn();
    if (currentValue !== previousValue) { return currentValue; }
    await page.waitForTimeout(TIMEOUTS.POLLING_INTERVAL);
  }
  return previousValue;
  \<close>
\<close>

function pollLoop ::
  "'u env \<Rightarrow> ('u \<Rightarrow> string option \<times> 'u) \<Rightarrow> string option \<Rightarrow> int \<Rightarrow> int \<Rightarrow> 'u session
     \<Rightarrow> string option \<times> 'u session" where
  "pollLoop env getValueFn previousValue timeout startTime s =
     (if clock s - startTime < timeout then
        (case invoke env getValueFn s of (currentValue, s1) \<Rightarrow>
           if currentValue \<noteq> previousValue then (currentValue, s1)
           else pollLoop env getValueFn previousValue timeout startTime
                  (waitForTimeout env POLLING_INTERVAL s1))
      else (previousValue, s))"
  by pat_completeness auto
termination
  by (relation "measure (\<lambda>(env, g, p, timeout, startTime, s). nat (startTime + timeout - clock s))")
     (auto simp: invoke_def settle_def waitForTimeout_def POLLING_INTERVAL_def Let_def
           split: prod.splits)

declare pollLoop.simps [simp del]

text \<open>One round of the loop in which the token has not changed: the poll, then the wait.\<close>

definition pollRound :: "'u env \<Rightarrow> ('u \<Rightarrow> string option \<times> 'u) \<Rightarrow> 'u session \<Rightarrow> 'u session" where
  "pollRound env getValueFn s =
     waitForTimeout env POLLING_INTERVAL (snd (invoke env getValueFn s))"

definition waitForFocusChange ::
  "'u env \<Rightarrow> ('u \<Rightarrow> string option \<times> 'u) \<Rightarrow> string option \<Rightarrow> int \<Rightarrow> 'u session
     \<Rightarrow> string option \<times> 'u session" where
  "waitForFocusChange env getValueFn previousValue timeout s =
     pollLoop env getValueFn previousValue timeout (clock s) s"

text \<open>
  \<^verbatim>\<open>
  console.warn(
    `[Navigation] Failed to find "${target}" during ${context}. ` +
      `Last focused element: "${lastFocused || 'none'}"`
  );
  \<close>
\<close>

definition navigationFailureMessage :: "string \<Rightarrow> string \<Rightarrow> string option \<Rightarrow> string" where
  \<open>navigationFailureMessage context target lastFocused =
     ''[Navigation] Failed to find "'' @ target @ ''" during '' @ context
       @ ''. Last focused element: "''
       @ (if truthy lastFocused then the lastFocused else ''none'') @ ''"''\<close>

definition logNavigationFailure ::
  "string \<Rightarrow> string \<Rightarrow> string option \<Rightarrow> 'u session \<Rightarrow> 'u session" where
  "logNavigationFailure context target lastFocused s =
     console (ConsoleWarn (navigationFailureMessage context target lastFocused)) s"

text \<open>
  \<^verbatim>\<open>
  return async () => {
    const focused = containerLocator.locator(focusSelector);
    if ((await focused.count()) === 0) { return null; }
    return await focused.getAttribute('data-testid');
  };
  \<close>
\<close>

definition focusSelectorDefault :: string where
  \<open>focusSelectorDefault = ''[role="listitem"][data-focused="focused"]''\<close>

definition createTestIdFocusGetter ::
  "'u env \<Rightarrow> locator \<Rightarrow> string \<Rightarrow> 'u \<Rightarrow> string option \<times> 'u" where
  "createTestIdFocusGetter env containerLocator focusSelector u =
     (let focused = Within containerLocator (Locator focusSelector) in
      case count env focused u of (n, u1) \<Rightarrow>
        if n = 0 then (None, u1) else getAttribute env focused ''data-testid'' u1)"

section \<open>src/utils/remoteControl.js\<close>

record remoteControl =
  keyPressDelay :: int

definition RemoteControl :: remoteControl where
  "RemoteControl = \<lparr>keyPressDelay = KEY_PRESS_DELAY\<rparr>"

definition UP :: string where "UP = ''ArrowUp''"
definition DOWN :: string where "DOWN = ''ArrowDown''"
definition LEFT :: string where "LEFT = ''ArrowLeft''"
definition RIGHT :: string where "RIGHT = ''ArrowRight''"
definition SELECT :: string where "SELECT = ''Enter''"
definition BACK :: string where "BACK = ''Escape''"

definition pressKey :: "'u env \<Rightarrow> remoteControl \<Rightarrow> string \<Rightarrow> 'u session \<Rightarrow> 'u session" where
  "pressKey env remote key s =
     (let s1 = keyboardDispatch env (Press key) s in
      if keyPressDelay remote > 0 then waitForTimeout env (nat (keyPressDelay remote)) s1
      else s1)"

text \<open>The trace one \<^verbatim>\<open>pressKey\<close> leaves behind.\<close>

definition keyPressEvents :: "remoteControl \<Rightarrow> string \<Rightarrow> event list" where
  "keyPressEvents remote key =
     Keyboard (Press key)
       # (if keyPressDelay remote > 0 then [WaitForTimeout (nat (keyPressDelay remote))] else [])"

fun pressKeyMultiple ::
  "'u env \<Rightarrow> remoteControl \<Rightarrow> string \<Rightarrow> nat \<Rightarrow> 'u session \<Rightarrow> 'u session" where
  "pressKeyMultiple env remote key 0 s = s"
| "pressKeyMultiple env remote key (Suc n) s =
     pressKeyMultiple env remote key n (pressKey env remote key s)"

definition moveUp :: "'u env \<Rightarrow> remoteControl \<Rightarrow> nat \<Rightarrow> 'u session \<Rightarrow> 'u session" where
  "moveUp env remote n s = pressKeyMultiple env remote UP n s"

definition moveDown :: "'u env \<Rightarrow> remoteControl \<Rightarrow> nat \<Rightarrow> 'u session \<Rightarrow> 'u session" where
  "moveDown env remote n s = pressKeyMultiple env remote DOWN n s"

definition moveLeft :: "'u env \<Rightarrow> remoteControl \<Rightarrow> nat \<Rightarrow> 'u session \<Rightarrow> 'u session" where
  "moveLeft env remote n s = pressKeyMultiple env remote LEFT n s"

definition moveRight :: "'u env \<Rightarrow> remoteControl \<Rightarrow> nat \<Rightarrow> 'u session \<Rightarrow> 'u session" where
  "moveRight env remote n s = pressKeyMultiple env remote RIGHT n s"

definition select :: "'u env \<Rightarrow> remoteControl \<Rightarrow> 'u session \<Rightarrow> 'u session" where
  "select env remote s = pressKey env remote SELECT s"

definition holdSelect :: "'u env \<Rightarrow> nat \<Rightarrow> 'u session \<Rightarrow> 'u session" where
  "holdSelect env duration s =
     keyboardDispatch env (Up SELECT)
       (waitForTimeout env duration (keyboardDispatch env (Down SELECT) s))"

text \<open>\<^verbatim>\<open>back()\<close>; the name is an Isar keyword.\<close>

definition backKey :: "'u env \<Rightarrow> remoteControl \<Rightarrow> 'u session \<Rightarrow> 'u session" where
  "backKey env remote s = pressKey env remote BACK s"

section \<open>src/pages/HomeScreenPage.js\<close>

text \<open>
  \<^verbatim>\<open>navigateToApp(appName, maxSteps)\<close>. The loop
  \<^verbatim>\<open>
  for (let i = 0; i < maxSteps; i++) {
    const currentId = await getFocusedAppTestId();
    if (currentId && normalise(currentId) === target) { return true; }
    await this.remote.moveRight();
    const newId = await waitForFocusChange(this.page, getFocusedAppTestId, currentId,
                                           TIMEOUTS.FOCUS_CHANGE);
    if (newId === currentId) {
      logNavigationFailure('app navigation in Favourite Apps rail', appName, currentId);
      return false;
    }
  }
  logNavigationFailure('app navigation (max steps reached)', appName, null);
  return false;
  \<close>
  is the recursion on \<open>i\<close>; \<open>maxSteps\<close> is an integer.
\<close>

definition endOfRail :: string where
  "endOfRail = ''app navigation in Favourite Apps rail''"

definition maxStepsReached :: string where
  "maxStepsReached = ''app navigation (max steps reached)''"

function navigateLoop ::
  "'u env \<Rightarrow> remoteControl \<Rightarrow> ('u \<Rightarrow> string option \<times> 'u) \<Rightarrow> string \<Rightarrow> string \<Rightarrow> int \<Rightarrow> int
     \<Rightarrow> 'u session \<Rightarrow> bool \<times> 'u session" where
  "navigateLoop env remote getFocusedAppTestId appName target maxSteps i s =
     (if i < maxSteps then
        (case invoke env getFocusedAppTestId s of (currentId, s1) \<Rightarrow>
           if truthy currentId \<and> normalise currentId = target then (True, s1)
           else
             (case waitForFocusChange env getFocusedAppTestId currentId FOCUS_CHANGE
                     (moveRight env remote 1 s1) of (newId, s2) \<Rightarrow>
                if newId = currentId
                then (False, logNavigationFailure endOfRail appName currentId s2)
                else navigateLoop env remote getFocusedAppTestId appName target maxSteps
                       (i + 1) s2))
      else (False, logNavigationFailure maxStepsReached appName None s))"
  by pat_completeness auto
termination
  by (relation "measure (\<lambda>(env, remote, g, appName, target, maxSteps, i, s). nat (maxSteps - i))")
     auto

declare navigateLoop.simps [simp del]

definition favouriteAppsRail :: locator where
  "favouriteAppsRail = GetByLabel ''Favourite Apps''"

definition navigateToApp ::
  "'u env \<Rightarrow> remoteControl \<Rightarrow> string \<Rightarrow> int \<Rightarrow> 'u session \<Rightarrow> (error + bool) \<times> 'u session" where
  "navigateToApp env remote appName maxSteps s =
     (case await env (Visible favouriteAppsRail) s of (visible, s0) \<Rightarrow>
        if \<not> visible then (Inl (TimeoutError (Visible favouriteAppsRail)), s0)
        else
          (let getFocusedAppTestId =
                 createTestIdFocusGetter env favouriteAppsRail focusSelectorDefault;
               target = normalise (Some appName)
           in case navigateLoop env remote getFocusedAppTestId appName target maxSteps 0 s0
              of (found, s') \<Rightarrow> (Inr found, s')))"

text \<open>
  \<^verbatim>\<open>addAppToFavoritesFromAppsPage(appName)\<close>. First the walk down to the Video rail:
  \<^verbatim>\<open>
  for (let i = 0; i < NAVIGATION_LIMITS.MAX_DOWN_STEPS; i++) {
    await this.remote.moveDown();
    const hasFocus = await isVideoRailItemFocused();
    if (hasFocus) { break; }
    if (i < NAVIGATION_LIMITS.MAX_DOWN_STEPS - 1) {
      await this.page.waitForLoadState('domcontentloaded');
    }
  }
  \<close>
\<close>

definition videoRail :: locator where
  "videoRail = GetByRole ''list'' ''Video''"

definition isVideoRailItemFocused :: "'u env \<Rightarrow> 'u session \<Rightarrow> bool \<times> 'u session" where
  "isVideoRailItemFocused env s =
     (case readCount env (Within videoRail (Locator focusSelectorDefault)) s of
        (n, s1) \<Rightarrow> (n > 0, s1))"

function downLoop ::
  "'u env \<Rightarrow> remoteControl \<Rightarrow> int \<Rightarrow> 'u session \<Rightarrow> (error + unit) \<times> 'u session" where
  "downLoop env remote i s =
     (if i < MAX_DOWN_STEPS then
        (case isVideoRailItemFocused env (moveDown env remote 1 s) of (hasFocus, s1) \<Rightarrow>
           if hasFocus then (Inr (), s1)
           else if i < MAX_DOWN_STEPS - 1 then
             (case await env (LoadState ''domcontentloaded'') s1 of (loaded, s2) \<Rightarrow>
                if loaded then downLoop env remote (i + 1) s2
                else (Inl (TimeoutError (LoadState ''domcontentloaded'')), s2))
           else downLoop env remote (i + 1) s1)
      else (Inr (), s))"
  by pat_completeness auto
termination
  by (relation "measure (\<lambda>(env, remote, i, s). nat (MAX_DOWN_STEPS - i))") auto

declare downLoop.simps [simp del]

text \<open>
  The search along the Video rail. One pass through the body of
  \<^verbatim>\<open>
  let previousTestId = null;
  for (let i = 0; i < NAVIGATION_LIMITS.MAX_APP_SEARCH_STEPS; i++) {
    const currentTestId = await getFocusedTestId();
    if (currentTestId === appName) { break; }
    if (currentTestId === null || (i > 0 && currentTestId === previousTestId)) {
      logNavigationFailure('Video rail app search', appName, previousTestId);
      return false;
    }
    previousTestId = currentTestId;
    await this.remote.moveRight();
    const newTestId = await waitForFocusChange(this.page, getFocusedTestId, currentTestId,
                                               TIMEOUTS.POLLING);
    if (newTestId === currentTestId) {
      logNavigationFailure('Video rail navigation (end of rail)', appName, currentTestId);
      return false;
    }
  }
  \<close>
  either goes on to the next pass with a new \<open>previousTestId\<close>, or breaks out of the
  loop, or returns false from the function.
\<close>

datatype 'u pass = Continue "string option" "'u session" | Break "'u session"
  | ReturnFalse "'u session"

definition videoRailSearchPass ::
  "'u env \<Rightarrow> remoteControl \<Rightarrow> ('u \<Rightarrow> string option \<times> 'u) \<Rightarrow> string \<Rightarrow> int \<Rightarrow> string option
     \<Rightarrow> 'u session \<Rightarrow> 'u pass" where
  "videoRailSearchPass env remote getFocusedTestId appName i previousTestId s =
     (case invoke env getFocusedTestId s of (currentTestId, s1) \<Rightarrow>
        if currentTestId = Some appName then Break s1
        else if currentTestId = None \<or> (i > 0 \<and> currentTestId = previousTestId)
        then ReturnFalse (logNavigationFailure ''Video rail app search'' appName previousTestId s1)
        else
          (case waitForFocusChange env getFocusedTestId currentTestId POLLING
                  (moveRight env remote 1 s1) of (newTestId, s2) \<Rightarrow>
             if newTestId = currentTestId
             then ReturnFalse (logNavigationFailure ''Video rail navigation (end of rail)''
                                 appName currentTestId s2)
             else Continue currentTestId s2))"

text \<open>The loop: \<open>(True, s)\<close> when it is left by \<^verbatim>\<open>break\<close> or with the steps used up,
  \<open>(False, s)\<close> when the function returns false from inside it.\<close>

function videoRailSearch ::
  "'u env \<Rightarrow> remoteControl \<Rightarrow> ('u \<Rightarrow> string option \<times> 'u) \<Rightarrow> string \<Rightarrow> int \<Rightarrow> string option
     \<Rightarrow> 'u session \<Rightarrow> bool \<times> 'u session" where
  "videoRailSearch env remote getFocusedTestId appName i previousTestId s =
     (if i < MAX_APP_SEARCH_STEPS then
        (case videoRailSearchPass env remote getFocusedTestId appName i previousTestId s of
           Continue currentTestId s2 \<Rightarrow>
             videoRailSearch env remote getFocusedTestId appName (i + 1) currentTestId s2
         | Break s1 \<Rightarrow> (True, s1)
         | ReturnFalse s1 \<Rightarrow> (False, s1))
      else (True, s))"
  by pat_completeness auto
termination
  by (relation "measure (\<lambda>(env, remote, g, appName, i, p, s). nat (MAX_APP_SEARCH_STEPS - i))")
     auto

declare videoRailSearch.simps [simp del]

text \<open>\<^verbatim>\<open>waitForHomeScreen()\<close>: \<^verbatim>\<open>waitForPageLoad('networkidle')\<close>, then the navigation root
  must be visible.\<close>

definition navRoot :: locator where
  "navRoot = GetByRole ''navigation'' ''Main menu''"

definition waitForHomeScreen :: "'u env \<Rightarrow> 'u session \<Rightarrow> (error + unit) \<times> 'u session" where
  "waitForHomeScreen env s =
     (case await env (LoadState ''networkidle'') s of (loaded, s1) \<Rightarrow>
        if \<not> loaded then (Inl (TimeoutError (LoadState ''networkidle'')), s1)
        else
          (case await env (Visible navRoot) s1 of (visible, s2) \<Rightarrow>
             if visible then (Inr (), s2) else (Inl (ExpectFailed (Visible navRoot)), s2)))"

definition favButtonFocused :: condition where
  "favButtonFocused = HasAttribute (Locator ''#app-fav-button'') ''data-focused'' ''true''"

definition couldNotFocusMessage :: "string \<Rightarrow> string" where
  \<open>couldNotFocusMessage appName =
     ''[HomeScreenPage] Could not focus any item in Video rail while adding "'' @ appName
       @ ''"''\<close>

definition addAppToFavoritesFromAppsPage ::
  "'u env \<Rightarrow> remoteControl \<Rightarrow> string \<Rightarrow> 'u session \<Rightarrow> (error + bool) \<times> 'u session" where
  "addAppToFavoritesFromAppsPage env remote appName s =
     (let getFocusedTestId = createTestIdFocusGetter env videoRail focusSelectorDefault in
      case downLoop env remote 0 s of
        (Inl e, s1) \<Rightarrow> (Inl e, s1)
      | (Inr _, s1) \<Rightarrow>
         (case isVideoRailItemFocused env s1 of (focused, s2) \<Rightarrow>
            if \<not> focused
            then (Inr False,
                  console (ConsoleWarn (couldNotFocusMessage appName)) s2)
            else
              (case videoRailSearch env remote getFocusedTestId appName 0 None s2 of
                 (leftLoop, s3) \<Rightarrow>
                  if \<not> leftLoop then (Inr False, s3)
                  else
                  (case invoke env getFocusedTestId s3 of (finalTestId, s4) \<Rightarrow>
                     if finalTestId \<noteq> Some appName
                     then (Inr False,
                           logNavigationFailure ''Video rail final verification'' appName
                             finalTestId s4)
                     else
                       (case await env favButtonFocused (select env remote s4) of
                          (focusedFav, s5) \<Rightarrow>
                            if \<not> focusedFav then (Inl (ExpectFailed favButtonFocused), s5)
                            else
                              (case waitForHomeScreen env (select env remote s5) of
                                 (Inl e, s6) \<Rightarrow> (Inl e, s6)
                               | (Inr _, s6) \<Rightarrow> (Inr True, select env remote s6)))))))"

section \<open>src/components/NavigationBar.js\<close>

record menuItem =
  item :: locator
  index :: int

definition searchItem :: locator where
  "searchItem = Within (GetByTestId ''main-menu-item-0'') (GetByRole ''menuitem'' ''Search'')"
definition homeItem :: locator where
  "homeItem = Within (GetByTestId ''main-menu-item-1'') (GetByRole ''menuitem'' ''Home'')"
definition tvGuideItem :: locator where
  "tvGuideItem = Within (GetByTestId ''main-menu-item-2'') (GetByRole ''menuitem'' ''Tv Guide'')"
definition channelsItem :: locator where
  "channelsItem = Within (GetByTestId ''main-menu-item-3'') (GetByRole ''menuitem'' ''Channels'')"
definition gamingItem :: locator where
  "gamingItem = Within (GetByTestId ''main-menu-item-4'') (GetByRole ''menuitem'' ''Gaming'')"
definition freeItem :: locator where
  "freeItem = Within (GetByTestId ''main-menu-item-5'') (GetByRole ''menuitem'' ''Free'')"
definition appsItem :: locator where
  "appsItem = Within (GetByTestId ''main-menu-item-6'') (GetByRole ''menuitem'' ''Apps'')"

text \<open>The object literal \<^verbatim>\<open>this.menuItems\<close>: its own properties, in order.\<close>

definition menuItems :: "(string \<times> menuItem) list" where
  "menuItems =
     [(''Search'', \<lparr>item = searchItem, index = 0\<rparr>),
      (''Home'', \<lparr>item = homeItem, index = 1\<rparr>),
      (''Tv Guide'', \<lparr>item = tvGuideItem, index = 2\<rparr>),
      (''Channels'', \<lparr>item = channelsItem, index = 3\<rparr>),
      (''Gaming'', \<lparr>item = gamingItem, index = 4\<rparr>),
      (''Free'', \<lparr>item = freeItem, index = 5\<rparr>),
      (''Apps'', \<lparr>item = appsItem, index = 6\<rparr>)]"

text \<open>
  \<^verbatim>\<open>this.menuItems[menuName]\<close> is a property read on an ordinary object: a name that is not
  an own property is looked up on \<^verbatim>\<open>Object.prototype\<close>, whose members are functions (and,
  for \<^verbatim>\<open>__proto__\<close>, the prototype object): all truthy, with neither \<^verbatim>\<open>item\<close> nor
  \<^verbatim>\<open>index\<close>. Any other name reads as \<^verbatim>\<open>undefined\<close>.
\<close>

definition objectPrototype :: "string list" where
  "objectPrototype =
     [''constructor'', ''__defineGetter__'', ''__defineSetter__'', ''hasOwnProperty'',
      ''__lookupGetter__'', ''__lookupSetter__'', ''isPrototypeOf'',
      ''propertyIsEnumerable'', ''toString'', ''valueOf'', ''__proto__'',
      ''toLocaleString'']"

datatype property = Own menuItem | Inherited

definition getProperty :: "string \<Rightarrow> property option" where
  "getProperty menuName =
     (case map_of menuItems menuName of
        Some entry \<Rightarrow> Some (Own entry)
      | None \<Rightarrow> if menuName \<in> set objectPrototype then Some Inherited else None)"

text \<open>
  The two loops of \<^verbatim>\<open>navigateToMenuItemByName\<close> differ in the move only:
  \<^verbatim>\<open>
  for (let i = 0; i < Math.min(steps, maxSteps); i++) {
    const isFocused = await target.item.getAttribute('data-focused');
    if (isFocused === 'focused') { break; }
    await remote.moveRight();      // remote.moveLeft() in the other loop
  }
  \<close>
\<close>

function menuLoop ::
  "'u env \<Rightarrow> locator \<Rightarrow> ('u session \<Rightarrow> 'u session) \<Rightarrow> int \<Rightarrow> int \<Rightarrow> 'u session \<Rightarrow> 'u session" where
  "menuLoop env targetItem move bound i s =
     (if i < bound then
        (case readAttribute env targetItem ''data-focused'' s of (isFocused, s1) \<Rightarrow>
           if isFocused = Some ''focused'' then s1
           else menuLoop env targetItem move bound (i + 1) (move s1))
      else s)"
  by pat_completeness auto
termination
  by (relation "measure (\<lambda>(env, targetItem, move, bound, i, s). nat (bound - i))") auto

declare menuLoop.simps [simp del]

datatype direction = right | left

definition focusedCondition :: "locator \<Rightarrow> condition" where
  "focusedCondition l = HasAttribute l ''data-focused'' ''focused''"

text \<open>
  \<^verbatim>\<open>navigateToMenuItemByName(remote, menuName, maxSteps)\<close>. For an inherited property
  \<^verbatim>\<open>target.index\<close> is \<^verbatim>\<open>undefined\<close>: \<^verbatim>\<open>undefined > 1\<close> is false, \<^verbatim>\<open>steps\<close> is \<^verbatim>\<open>NaN\<close>,
  \<^verbatim>\<open>0 < Math.min(NaN, maxSteps)\<close> is false, so no move is made, and \<^verbatim>\<open>expect(undefined)\<close>
  rejects the final check.
\<close>

definition navigateToMenuItemByName ::
  "'u env \<Rightarrow> remoteControl \<Rightarrow> string \<Rightarrow> int \<Rightarrow> 'u session \<Rightarrow> (error + locator) \<times> 'u session" where
  "navigateToMenuItemByName env remote menuName maxSteps s =
     (case getProperty menuName of
        None \<Rightarrow> (Inl (UnknownMenuItem menuName), s)
      | Some target \<Rightarrow>
         (case await env (focusedCondition homeItem) (moveUp env remote 2 s) of
            (atHome, s1) \<Rightarrow>
              if \<not> atHome then (Inl (ExpectFailed (focusedCondition homeItem)), s1)
              else
                (case target of
                   Inherited \<Rightarrow> (Inl NotALocator, s1)
                 | Own entry \<Rightarrow>
                    (let homeIndex = 1;
                         direction = (if index entry > homeIndex then right else left);
                         steps = \<bar>index entry - homeIndex\<bar>;
                         s2 = (if direction = right
                               then menuLoop env (item entry) (moveRight env remote 1)
                                      (min steps maxSteps) 0 s1
                               else menuLoop env (item entry) (moveLeft env remote 1)
                                      (min steps maxSteps) 0 s1)
                     in case await env (focusedCondition (item entry)) s2 of
                          (focused, s3) \<Rightarrow>
                            if focused then (Inr (item entry), s3)
                            else (Inl (ExpectFailed (focusedCondition (item entry))), s3)))))"

section \<open>Example pages\<close>

text \<open>
  A page whose focus accessor answers from a script: each read takes the next token of
  the list, and the last token is repeated for ever. Keys and time do nothing to it.
\<close>

definition script :: "string option list \<Rightarrow> string option \<times> string option list" where
  "script u = (case u of [] \<Rightarrow> (None, u) | [v] \<Rightarrow> (v, u) | v # r \<Rightarrow> (v, r))"

definition scripted :: "string option list env" where
  "scripted =
     \<lparr>keyboard = (\<lambda>k u. u), timePasses = (\<lambda>ms u. u), lag = (\<lambda>u. 0),
      count = (\<lambda>l u. case u of [] \<Rightarrow> (0, u) | [None] \<Rightarrow> (0, u) | None # r \<Rightarrow> (0, r)
                       | Some t # r \<Rightarrow> (1, u)),
      getAttribute = (\<lambda>l a u. script u),
      fulfilled = (\<lambda>c u. (True, u))\<rparr>"

text \<open>The same page, slow: every call takes 200 milliseconds.\<close>

definition sluggish :: "string option list env" where
  "sluggish = scripted\<lparr>lag := (\<lambda>u. 200)\<rparr>"

definition page :: "'u \<Rightarrow> 'u session" where
  "page u = \<lparr>ui = u, clock = 0, trace = []\<rparr>"

text \<open>
  A menu bar: the page state is the index of the focused menu item. Up puts the focus on
  Home, Left and Right move it by one and stop at either end.
\<close>

definition menuBarKey :: "key_event \<Rightarrow> int \<Rightarrow> int" where
  "menuBarKey k u =
     (if k = Press UP then 1
      else if k = Press RIGHT then min 6 (u + 1)
      else if k = Press LEFT then max 0 (u - 1)
      else u)"

definition menuBarAttribute :: "locator \<Rightarrow> string \<Rightarrow> int \<Rightarrow> string option" where
  "menuBarAttribute l a u =
     (case List.find (\<lambda>(name, entry). item entry = l) menuItems of
        None \<Rightarrow> None
      | Some (name, entry) \<Rightarrow> if index entry = u then Some ''focused'' else Some ''false'')"

definition menuBar :: "int env" where
  "menuBar =
     \<lparr>keyboard = menuBarKey, timePasses = (\<lambda>ms u. u), lag = (\<lambda>u. 0),
      count = (\<lambda>l u. (1, u)),
      getAttribute = (\<lambda>l a u. (menuBarAttribute l a u, u)),
      fulfilled = (\<lambda>c u. case c of
                      HasAttribute l a v \<Rightarrow> (menuBarAttribute l a u = Some v, u)
                    | _ \<Rightarrow> (True, u))\<rparr>"

section \<open>Properties\<close>

subsection \<open>What the primitives leave in the trace\<close>

lemma commands_append: "commands (xs @ ys) = commands xs @ commands ys"
  by (induction xs rule: commands.induct) auto

lemma invoke_trace: "invoke env g s = (v, s1) \<Longrightarrow> trace s1 = trace s @ [Polled v]"
  by (auto simp: invoke_def settle_def split: prod.splits)

lemma invoke_clock: "invoke env g s = (v, s1) \<Longrightarrow> clock s \<le> clock s1"
  by (auto simp: invoke_def settle_def split: prod.splits)

lemma invoke_commands: "invoke env g s = (v, s1) \<Longrightarrow> commands (trace s1) = commands (trace s)"
  by (simp add: invoke_trace commands_append)

lemma waitForTimeout_trace: "trace (waitForTimeout env ms s) = trace s @ [WaitForTimeout ms]"
  by (simp add: waitForTimeout_def Let_def)

lemma waitForTimeout_clock: "clock s + int ms \<le> clock (waitForTimeout env ms s)"
  by (simp add: waitForTimeout_def Let_def)

lemma keyboardDispatch_trace: "trace (keyboardDispatch env k s) = trace s @ [Keyboard k]"
  by (simp add: keyboardDispatch_def settle_def)

lemma await_trace: "await env c s = (ok, s1) \<Longrightarrow> trace s1 = trace s @ [Awaited c ok]"
  by (auto simp: await_def settle_def split: prod.splits)

lemma await_commands: "await env c s = (ok, s1) \<Longrightarrow> commands (trace s1) = commands (trace s)"
  by (auto simp: await_def settle_def commands_append split: prod.splits)

lemma readAttribute_trace:
  "readAttribute env l a s = (v, s1) \<Longrightarrow> trace s1 = trace s @ [GetAttribute l a v]"
  by (auto simp: readAttribute_def settle_def split: prod.splits)

lemma pressKey_trace: "trace (pressKey env remote key s) = trace s @ keyPressEvents remote key"
  by (simp add: pressKey_def keyPressEvents_def Let_def waitForTimeout_trace keyboardDispatch_trace)

lemma pressKey_commands:
  "commands (trace (pressKey env remote key s)) = commands (trace s) @ [Press key]"
  by (simp add: pressKey_def Let_def waitForTimeout_trace keyboardDispatch_trace commands_append)

lemma pressKeyMultiple_trace:
  "trace (pressKeyMultiple env remote key n s)
     = trace s @ concat (replicate n (keyPressEvents remote key))"
  by (induction n arbitrary: s) (auto simp: pressKey_trace)

lemma pressKeyMultiple_commands:
  "commands (trace (pressKeyMultiple env remote key n s))
     = commands (trace s) @ replicate n (Press key)"
  by (induction n arbitrary: s) (auto simp: pressKey_commands replicate_append_same)

lemma moveUp_commands:
  "commands (trace (moveUp env remote n s)) = commands (trace s) @ replicate n (Press UP)"
  by (simp add: moveUp_def pressKeyMultiple_commands)

lemma moveRight_fun: "moveRight env remote n = pressKeyMultiple env remote RIGHT n"
  by (rule ext) (simp add: moveRight_def)

lemma moveLeft_fun: "moveLeft env remote n = pressKeyMultiple env remote LEFT n"
  by (rule ext) (simp add: moveLeft_def)

lemma logNavigationFailure_trace:
  "trace (logNavigationFailure c t l s)
     = trace s @ [ConsoleWarn (navigationFailureMessage c t l)]"
  by (simp add: logNavigationFailure_def console_def)

lemma logNavigationFailure_commands:
  "commands (trace (logNavigationFailure c t l s)) = commands (trace s)"
  by (simp add: logNavigationFailure_trace commands_append)

subsection \<open>The polling loop\<close>

lemma pollLoop_shape:
  "pollLoop env g prev timeout start s = (r, s') \<Longrightarrow>
   \<exists>k. trace s' = trace s @ concat (replicate k [Polled prev, WaitForTimeout POLLING_INTERVAL])
                      @ (if r = prev then [] else [Polled r])
     \<and> (if r = prev then timeout \<le> clock s' - start
        else clock s - start + int (k * POLLING_INTERVAL) < timeout)"
proof (induction env g prev timeout start s rule: pollLoop.induct)
  case (1 env g prev timeout start s)
  show ?case
  proof (cases "clock s - start < timeout")
    case False
    with "1.prems" have "r = prev" "s' = s" by (simp_all add: pollLoop.simps)
    with False show ?thesis by (intro exI[of _ 0]) simp
  next
    case running: True
    obtain cur s1 where inv: "invoke env g s = (cur, s1)" by force
    show ?thesis
    proof (cases "cur = prev")
      case False
      with running inv "1.prems" have "r = cur" "s' = s1" by (simp_all add: pollLoop.simps)
      with False running invoke_trace[OF inv] show ?thesis by (intro exI[of _ 0]) simp
    next
      case True
      let ?s2 = "waitForTimeout env POLLING_INTERVAL s1"
      from True running inv "1.prems"
      have rest: "pollLoop env g prev timeout start ?s2 = (r, s')"
        by (simp add: pollLoop.simps)
      from "1.IH"[OF running inv[symmetric] _ rest] True
      obtain k where k: "trace s' = trace ?s2
            @ concat (replicate k [Polled prev, WaitForTimeout POLLING_INTERVAL])
            @ (if r = prev then [] else [Polled r])"
          "if r = prev then timeout \<le> clock s' - start
           else clock ?s2 - start + int (k * POLLING_INTERVAL) < timeout"
        by auto
      have tr: "trace ?s2 = trace s @ [Polled prev, WaitForTimeout POLLING_INTERVAL]"
        using invoke_trace[OF inv] True by (simp add: waitForTimeout_trace)
      have cl: "clock s + int POLLING_INTERVAL \<le> clock ?s2"
        using invoke_clock[OF inv] waitForTimeout_clock[of s1 POLLING_INTERVAL env] by linarith
      show ?thesis
      proof (intro exI[of _ "Suc k"] conjI)
        show "trace s' = trace s @ concat (replicate (Suc k) [Polled prev, WaitForTimeout POLLING_INTERVAL])
                      @ (if r = prev then [] else [Polled r])"
          using k(1) tr by simp
        show "if r = prev then timeout \<le> clock s' - start
              else clock s - start + int (Suc k * POLLING_INTERVAL) < timeout"
          using k(2) cl by (auto simp: algebra_simps)
      qed
    qed
  qed
qed

lemma commands_rounds:
  "commands (concat (replicate k [Polled p, WaitForTimeout n])) = []"
  by (induction k) auto

lemma waitForFocusChange_commands:
  assumes "waitForFocusChange env g prev timeout s = (r, s')"
  shows "commands (trace s') = commands (trace s)"
proof -
  from assms have "pollLoop env g prev timeout (clock s) s = (r, s')"
    by (simp add: waitForFocusChange_def)
  from pollLoop_shape[OF this] obtain k where
    "trace s' = trace s @ concat (replicate k [Polled prev, WaitForTimeout POLLING_INTERVAL])
                      @ (if r = prev then [] else [Polled r])" by blast
  then show ?thesis by (simp add: commands_append commands_rounds)
qed

lemma waitForFocusChange_trace:
  assumes "waitForFocusChange env g prev timeout s = (r, s')"
  shows "\<exists>es. trace s' = trace s @ es"
proof -
  from assms have "pollLoop env g prev timeout (clock s) s = (r, s')"
    by (simp add: waitForFocusChange_def)
  from pollLoop_shape[OF this] show ?thesis by blast
qed

lemma waitForFocusChange_step:
  assumes "clock s - start < timeout" and "invoke env g s = (prev, s1)"
  shows "pollLoop env g prev timeout start s
           = pollLoop env g prev timeout start (waitForTimeout env POLLING_INTERVAL s1)"
  using assms by (subst pollLoop.simps) simp

lemma pollRound_trace:
  "fst (invoke env g s) = prev \<Longrightarrow>
   trace (pollRound env g s) = trace s @ [Polled prev, WaitForTimeout POLLING_INTERVAL]"
  by (auto simp: pollRound_def waitForTimeout_trace invoke_def settle_def split: prod.splits)

lemma pollLoop_rounds:
  "pollLoop env g prev timeout start s = (r, s') \<Longrightarrow>
   \<exists>k. (\<forall>j<k. clock ((pollRound env g ^^ j) s) - start < timeout
               \<and> fst (invoke env g ((pollRound env g ^^ j) s)) = prev)
     \<and> (if clock ((pollRound env g ^^ k) s) - start < timeout
        then invoke env g ((pollRound env g ^^ k) s) = (r, s') \<and> r \<noteq> prev
        else r = prev \<and> s' = (pollRound env g ^^ k) s)"
proof (induction env g prev timeout start s rule: pollLoop.induct)
  case (1 env g prev timeout start s)
  show ?case
  proof (cases "clock s - start < timeout")
    case False
    with "1.prems" have "r = prev" "s' = s" by (simp_all add: pollLoop.simps)
    with False show ?thesis by (intro exI[of _ 0]) simp
  next
    case running: True
    obtain cur s1 where inv: "invoke env g s = (cur, s1)" by force
    show ?thesis
    proof (cases "cur = prev")
      case False
      with running inv "1.prems" have "r = cur" "s' = s1" by (simp_all add: pollLoop.simps)
      with False running inv show ?thesis by (intro exI[of _ 0]) simp
    next
      case True
      have next_state: "waitForTimeout env POLLING_INTERVAL s1 = pollRound env g s"
        using inv by (simp add: pollRound_def)
      from True inv "1.prems" waitForFocusChange_step[OF running, of env g prev s1]
      have rest: "pollLoop env g prev timeout start (pollRound env g s) = (r, s')"
        by (simp add: next_state)
      from "1.IH"[OF running inv[symmetric] _ rest[folded next_state]] True
      obtain k where
        before: "\<forall>j<k. clock ((pollRound env g ^^ j) (pollRound env g s)) - start < timeout
               \<and> fst (invoke env g ((pollRound env g ^^ j) (pollRound env g s))) = prev"
        and at: "if clock ((pollRound env g ^^ k) (pollRound env g s)) - start < timeout
            then invoke env g ((pollRound env g ^^ k) (pollRound env g s)) = (r, s') \<and> r \<noteq> prev
            else r = prev \<and> s' = (pollRound env g ^^ k) (pollRound env g s)"
        unfolding next_state by auto
      have all: "clock ((pollRound env g ^^ j) s) - start < timeout
               \<and> fst (invoke env g ((pollRound env g ^^ j) s)) = prev" if "j < Suc k" for j
      proof (cases j)
        case 0
        with running inv True show ?thesis by simp
      next
        case (Suc j')
        with that before show ?thesis by (simp add: funpow_swap1)
      qed
      show ?thesis
        using all at by (intro exI[of _ "Suc k"]) (simp add: funpow_swap1)
    qed
  qed
qed

lemma rounds_snoc: "concat (replicate k xs) @ xs = xs @ concat (replicate k xs)"
  by (induction k) auto

lemma pollRound_funpow_trace:
  "(\<forall>j<k. fst (invoke env g ((pollRound env g ^^ j) s)) = prev) \<Longrightarrow>
   trace ((pollRound env g ^^ k) s)
     = trace s @ concat (replicate k [Polled prev, WaitForTimeout POLLING_INTERVAL])"
proof (induction k)
  case 0
  show ?case by simp
next
  case (Suc k)
  then have "trace ((pollRound env g ^^ k) s)
     = trace s @ concat (replicate k [Polled prev, WaitForTimeout POLLING_INTERVAL])"
    and "fst (invoke env g ((pollRound env g ^^ k) s)) = prev"
    by simp_all
  then have "trace ((pollRound env g ^^ Suc k) s)
     = trace s @ concat (replicate k [Polled prev, WaitForTimeout POLLING_INTERVAL])
         @ [Polled prev, WaitForTimeout POLLING_INTERVAL]"
    by (simp add: pollRound_trace)
  then show ?case
    using rounds_snoc[of k "[Polled prev, WaitForTimeout POLLING_INTERVAL]"] by simp
qed

lemma pollRound_clock: "clock s \<le> clock (pollRound env g s)"
proof -
  obtain v s1 where inv: "invoke env g s = (v, s1)" by force
  then show ?thesis
    using invoke_clock[OF inv] waitForTimeout_clock[of s1 POLLING_INTERVAL env]
    by (simp add: pollRound_def)
qed

lemma pollRound_funpow_clock: "clock s \<le> clock ((pollRound env g ^^ m) s)"
proof (induction m)
  case 0
  show ?case by simp
next
  case (Suc m)
  then show ?case using pollRound_clock[of "(pollRound env g ^^ m) s" env g] by simp
qed

subsection \<open>The search loop of \<open>navigateToApp\<close>\<close>

lemma navigateLoop_step:
  assumes "i < maxSteps" and "invoke env g s = (currentId, s1)"
    and "\<not> (truthy currentId \<and> normalise currentId = target)"
    and "waitForFocusChange env g currentId FOCUS_CHANGE (moveRight env remote 1 s1) = (newId, s2)"
  shows "navigateLoop env remote g appName target maxSteps i s
     = (if newId = currentId then (False, logNavigationFailure endOfRail appName currentId s2)
        else navigateLoop env remote g appName target maxSteps (i + 1) s2)"
  using assms by (subst navigateLoop.simps) (auto simp del: One_nat_def)

lemma navigateLoop_commands:
  "\<exists>k. int k \<le> max 0 (maxSteps - i) \<and>
       commands (trace (snd (navigateLoop env remote g appName target maxSteps i s)))
         = commands (trace s) @ replicate k (Press RIGHT)"
proof (induction env remote g appName target maxSteps i s rule: navigateLoop.induct)
  case (1 env remote g appName target maxSteps i s)
  show ?case
  proof (cases "i < maxSteps")
    case False
    then show ?thesis
      by (intro exI[of _ 0]) (simp add: navigateLoop.simps logNavigationFailure_commands)
  next
    case inside: True
    obtain currentId s1 where inv: "invoke env g s = (currentId, s1)" by force
    show ?thesis
    proof (cases "truthy currentId \<and> normalise currentId = target")
      case True
      with inside inv show ?thesis
        by (intro exI[of _ 0]) (simp add: navigateLoop.simps invoke_commands)
    next
      case noMatch: False
      obtain newId s2 where
        w: "waitForFocusChange env g currentId FOCUS_CHANGE (moveRight env remote 1 s1) = (newId, s2)"
        by force
      have c2: "commands (trace s2) = commands (trace s) @ [Press RIGHT]"
        using waitForFocusChange_commands[OF w] invoke_commands[OF inv]
        by (simp add: moveRight_def pressKey_commands)
      show ?thesis
      proof (cases "newId = currentId")
        case True
        with inside inv noMatch w c2 show ?thesis
          by (intro exI[of _ 1]) (auto simp: navigateLoop.simps logNavigationFailure_commands)
      next
        case False
        from "1.IH"[OF inside inv[symmetric] noMatch w[symmetric] False]
        obtain k where k: "int k \<le> max 0 (maxSteps - (i + 1))"
          "commands (trace (snd (navigateLoop env remote g appName target maxSteps (i + 1) s2)))
             = commands (trace s2) @ replicate k (Press RIGHT)" by blast
        have unfold: "navigateLoop env remote g appName target maxSteps i s
              = navigateLoop env remote g appName target maxSteps (i + 1) s2"
          using inside inv noMatch w False by (subst navigateLoop.simps) auto
        show ?thesis
          using k c2 inside unfolding unfold by (intro exI[of _ "Suc k"]) auto
      qed
    qed
  qed
qed

lemma navigateLoop_found:
  "navigateLoop env remote g appName target maxSteps i s = (True, s') \<Longrightarrow>
   \<exists>t es. t \<noteq> [] \<and> normalise (Some t) = target \<and> trace s' = trace s @ es @ [Polled (Some t)]"
proof (induction env remote g appName target maxSteps i s rule: navigateLoop.induct)
  case (1 env remote g appName target maxSteps i s)
  show ?case
  proof (cases "i < maxSteps")
    case False
    with "1.prems" show ?thesis by (simp add: navigateLoop.simps)
  next
    case inside: True
    obtain currentId s1 where inv: "invoke env g s = (currentId, s1)" by force
    show ?thesis
    proof (cases "truthy currentId \<and> normalise currentId = target")
      case True
      with inside inv "1.prems" have "s' = s1" by (simp add: navigateLoop.simps)
      moreover from True obtain t where "currentId = Some t" "t \<noteq> []"
        by (cases currentId) auto
      ultimately show ?thesis using True invoke_trace[OF inv]
        by (intro exI[of _ t] exI[of _ "[]"]) simp
    next
      case noMatch: False
      obtain newId s2 where
        w: "waitForFocusChange env g currentId FOCUS_CHANGE (moveRight env remote 1 s1) = (newId, s2)"
        by force
      from waitForFocusChange_trace[OF w] obtain es2 where
        "trace s2 = trace (moveRight env remote 1 s1) @ es2" by blast
      then have tr2: "trace s2 = trace s @ (Polled currentId # keyPressEvents remote RIGHT @ es2)"
        using invoke_trace[OF inv] by (simp add: moveRight_def pressKey_trace)
      show ?thesis
      proof (cases "newId = currentId")
        case True
        with navigateLoop_step[OF inside inv noMatch w, of appName] "1.prems" show ?thesis
          by simp
      next
        case False
        have "navigateLoop env remote g appName target maxSteps (i + 1) s2 = (True, s')"
          using navigateLoop_step[OF inside inv noMatch w, of appName] False "1.prems" by simp
        from "1.IH"[OF inside inv[symmetric] noMatch w[symmetric] False this]
        obtain t es where "t \<noteq> []" "normalise (Some t) = target"
          "trace s' = trace s2 @ es @ [Polled (Some t)]" by blast
        then show ?thesis using tr2
          by (intro exI[of _ t] exI[of _ "(Polled currentId # keyPressEvents remote RIGHT @ es2) @ es"])
             simp
      qed
    qed
  qed
qed

lemma navigateLoop_moves_on:
  assumes "i < maxSteps" and "invoke env g s = (currentId, s1)"
    and "\<not> (truthy currentId \<and> normalise currentId = target)"
  shows "\<exists>ks. commands (trace (snd (navigateLoop env remote g appName target maxSteps i s)))
           = commands (trace s) @ Press RIGHT # ks"
proof -
  obtain newId s2 where
    w: "waitForFocusChange env g currentId FOCUS_CHANGE (moveRight env remote 1 s1) = (newId, s2)"
    by force
  have c2: "commands (trace s2) = commands (trace s) @ [Press RIGHT]"
    using waitForFocusChange_commands[OF w] invoke_commands[OF assms(2)]
    by (simp add: moveRight_def pressKey_commands)
  show ?thesis
  proof (cases "newId = currentId")
    case True
    with navigateLoop_step[OF assms w, of appName] c2 show ?thesis
      by (intro exI[of _ "[]"]) (simp add: logNavigationFailure_commands)
  next
    case False
    from navigateLoop_commands[of maxSteps "i + 1" env remote g appName target s2]
    obtain k where
      "commands (trace (snd (navigateLoop env remote g appName target maxSteps (i + 1) s2)))
         = commands (trace s2) @ replicate k (Press RIGHT)" by blast
    moreover have "navigateLoop env remote g appName target maxSteps i s
        = navigateLoop env remote g appName target maxSteps (i + 1) s2"
      using navigateLoop_step[OF assms w, of appName] False by simp
    ultimately show ?thesis using c2
      by (intro exI[of _ "replicate k (Press RIGHT)"]) simp
  qed
qed

lemma navigateToApp_visible:
  assumes "await env (Visible favouriteAppsRail) s = (True, s0)"
  shows "navigateToApp env remote appName maxSteps s
     = (Inr (fst (navigateLoop env remote
                    (createTestIdFocusGetter env favouriteAppsRail focusSelectorDefault)
                    appName (normalise (Some appName)) maxSteps 0 s0)),
        snd (navigateLoop env remote
               (createTestIdFocusGetter env favouriteAppsRail focusSelectorDefault)
               appName (normalise (Some appName)) maxSteps 0 s0))"
  using assms by (simp add: navigateToApp_def Let_def split: prod.splits)

lemma navigateToApp_hidden:
  assumes "await env (Visible favouriteAppsRail) s = (False, s0)"
  shows "navigateToApp env remote appName maxSteps s
     = (Inl (TimeoutError (Visible favouriteAppsRail)), s0)"
  using assms by (simp add: navigateToApp_def)

lemma found_on_first_read:
  assumes "await env (Visible favouriteAppsRail) s = (True, s0)"
    and "invoke env (createTestIdFocusGetter env favouriteAppsRail focusSelectorDefault) s0
           = (currentId, s1)"
    and "0 < maxSteps" and "truthy currentId"
    and "normalise currentId = normalise (Some appName)"
  shows "navigateToApp env remote appName maxSteps s = (Inr True, s1)
         \<and> commands (trace s1) = commands (trace s)"
proof
  show "navigateToApp env remote appName maxSteps s = (Inr True, s1)"
    using assms(2-5) by (simp add: navigateToApp_visible[OF assms(1)] navigateLoop.simps)
  show "commands (trace s1) = commands (trace s)"
    using invoke_commands[OF assms(2)] await_commands[OF assms(1)] by simp
qed

lemma navigateLoop_later:
  assumes "i < maxSteps" and "invoke env g s = (currentId, s1)"
    and "\<not> (truthy currentId \<and> normalise currentId = target)"
  shows "navigateLoop env remote g appName target maxSteps i s \<noteq> (True, s1)"
proof
  assume found: "navigateLoop env remote g appName target maxSteps i s = (True, s1)"
  obtain newId s2 where
    w: "waitForFocusChange env g currentId FOCUS_CHANGE (moveRight env remote 1 s1) = (newId, s2)"
    by force
  from waitForFocusChange_trace[OF w] obtain es2 where
    "trace s2 = trace (moveRight env remote 1 s1) @ es2" by blast
  then have tr2: "trace s2 = trace s1 @ keyPressEvents remote RIGHT @ es2"
    by (simp add: moveRight_def pressKey_trace)
  from navigateLoop_step[OF assms w, of appName] found
  have "newId \<noteq> currentId"
    and "navigateLoop env remote g appName target maxSteps (i + 1) s2 = (True, s1)"
    by (auto split: if_splits)
  from navigateLoop_found[OF this(2)] obtain t es where
    "trace s1 = trace s2 @ es @ [Polled (Some t)]" by blast
  with tr2 have "length (trace s1) > length (trace s1)" by simp
  then show False by simp
qed

subsection \<open>Normalisation\<close>

lemma lowerChar_whiteSpace: "isWhiteSpace c \<Longrightarrow> lowerChar c = c"
  by (auto simp: isWhiteSpace_def lowerChar_def Let_def)

lemma toLowerCase_whiteSpace: "list_all isWhiteSpace ws \<Longrightarrow> toLowerCase ws = ws"
  by (induction ws) (auto simp: toLowerCase_def lowerChar_whiteSpace)

lemma toLowerCase_append: "toLowerCase (xs @ ys) = toLowerCase xs @ toLowerCase ys"
  by (simp add: toLowerCase_def)

lemma trim_padding:
  assumes "list_all isWhiteSpace pre" and "list_all isWhiteSpace post"
  shows "trim (pre @ x @ post) = trim x"
proof -
  have front: "dropWhile isWhiteSpace (pre @ x @ post) = dropWhile isWhiteSpace (x @ post)"
    using assms(1) by (simp add: dropWhile_append2 list_all_iff)
  show ?thesis
  proof (cases "list_all isWhiteSpace x")
    case True
    then have a: "dropWhile isWhiteSpace (pre @ x @ post) = []"
      and b: "dropWhile isWhiteSpace x = []"
      using assms by (auto simp: list_all_iff)
    show ?thesis unfolding trim_def a b by simp
  next
    case False
    then obtain c where c: "c \<in> set x" "\<not> isWhiteSpace c" by (auto simp: list_all_iff)
    then have "dropWhile isWhiteSpace (x @ post) = dropWhile isWhiteSpace x @ post"
      by (rule dropWhile_append1)
    moreover have "dropWhile isWhiteSpace (rev post @ ys) = dropWhile isWhiteSpace ys" for ys
      using assms(2) by (intro dropWhile_append2) (simp add: list_all_iff)
    ultimately show ?thesis using front by (simp add: trim_def)
  qed
qed

lemma normalise_padding:
  assumes "list_all isWhiteSpace pre" and "list_all isWhiteSpace post"
  shows "normalise (Some (pre @ x @ post)) = trim (toLowerCase x)"
proof (cases "pre @ x @ post = []")
  case True
  then show ?thesis by (simp add: normalise_def toLowerCase_def trim_def)
next
  case False
  then have "normalise (Some (pre @ x @ post)) = trim (toLowerCase (pre @ x @ post))"
    by (simp add: normalise_def)
  also have "\<dots> = trim (pre @ toLowerCase x @ post)"
    using assms by (simp add: toLowerCase_append toLowerCase_whiteSpace)
  also have "\<dots> = trim (toLowerCase x)"
    using assms by (simp add: trim_padding)
  finally show ?thesis .
qed

subsection \<open>Evaluation on the example pages\<close>

lemmas run_defs = invoke_def settle_def waitForTimeout_def keyboardDispatch_def await_def
  readAttribute_def readCount_def console_def logNavigationFailure_def pressKey_def
  moveRight_def moveLeft_def moveUp_def moveDown_def select_def
  waitForFocusChange_def pollLoop.simps createTestIdFocusGetter_def
  POLLING_INTERVAL_def FOCUS_CHANGE_def POLLING_def KEY_PRESS_DELAY_def RemoteControl_def
  UP_def DOWN_def LEFT_def RIGHT_def SELECT_def
  scripted_def script_def page_def Let_def

subsection \<open>C1: the target is already focused\<close>

text \<open>
  C1 with the target already focused and no steps: \<open>navigateToApp\<close> tests the loop
  counter against \<open>maxSteps\<close> before it reads the focus, and does not read it after the
  loop either. With \<open>Netflix\<close> focused and \<open>maxSteps = 0\<close> it makes no read, warns that the
  steps are used up with \<open>none\<close> as the last focused element, and returns false. The same
  happens with steps to spend: on the rail \<open>A\<close>, \<open>B\<close> with target \<open>B\<close> and
  \<open>maxSteps = 1\<close> it makes its one right move, \<open>B\<close> is focused, and it returns false.
\<close>

theorem focused_target_reported_not_found:
  "fst (createTestIdFocusGetter scripted favouriteAppsRail focusSelectorDefault
          [Some ''Netflix'']) = Some ''Netflix''
   \<and> navigateToApp scripted RemoteControl ''Netflix'' 0 (page [Some ''Netflix''])
     = (Inr False,
        \<lparr>ui = [Some ''Netflix''], clock = 0,
         trace = [Awaited (Visible favouriteAppsRail) True,
                  ConsoleWarn (navigationFailureMessage maxStepsReached ''Netflix'' None)]\<rparr>)
   \<and> fst (navigateToApp scripted RemoteControl ''B'' 1 (page [Some ''A'', Some ''B'']))
     = Inr False
   \<and> commands (trace (snd (navigateToApp scripted RemoteControl ''B'' 1
                              (page [Some ''A'', Some ''B''])))) = [Press RIGHT]
   \<and> fst (createTestIdFocusGetter scripted favouriteAppsRail focusSelectorDefault
            (ui (snd (navigateToApp scripted RemoteControl ''B'' 1
                        (page [Some ''A'', Some ''B''])))))
     = Some ''B''"
proof -
  have na: "normalise (Some ''A'') \<noteq> normalise (Some ''B'')" by code_simp
  have run: "navigateToApp scripted RemoteControl ''B'' 1 (page [Some ''A'', Some ''B''])
    = (Inr False,
       \<lparr>ui = [Some ''B''], clock = 100,
        trace = [Awaited (Visible favouriteAppsRail) True, Polled (Some ''A''),
                 Keyboard (Press ''ArrowRight''), WaitForTimeout 100, Polled (Some ''B''),
                 ConsoleWarn (navigationFailureMessage maxStepsReached ''B'' None)]\<rparr>)"
    using na by (simp add: run_defs navigateToApp_def navigateLoop.simps)
  show ?thesis
    unfolding run by (simp add: run_defs navigateToApp_def navigateLoop.simps)
qed

subsection \<open>C2: normalisation in the two searches\<close>

text \<open>
  C2, as the code has it. In the search along the Favourite Apps rail (\<open>navigateToApp\<close>)
  the comparison normalises both sides: at every pass with steps left, the pass answers
  \<open>True\<close> at its first read exactly when the token is non-empty and its normalisation
  equals the target's. So a non-empty token and a target that differ only by letter case
  and by white space at either end of either of them give \<open>True\<close> at once. The search
  along the Video rail (\<open>addAppToFavoritesFromAppsPage\<close>) does not normalise: a pass
  breaks out of the loop as found exactly when the token is the target itself.
\<close>

theorem favourites_search_normalises:
  "(i < maxSteps \<and> invoke env getFocusedAppTestId s = (currentId, s1) \<longrightarrow>
      (navigateLoop env remote getFocusedAppTestId appName (normalise (Some appName))
         maxSteps i s = (True, s1))
      = (truthy currentId \<and> normalise currentId = normalise (Some appName)))
   \<and> (i < maxSteps
        \<and> invoke env getFocusedAppTestId s = (Some (tpre @ core @ tpost), s1)
        \<and> tpre @ core @ tpost \<noteq> []
        \<and> list_all isWhiteSpace tpre \<and> list_all isWhiteSpace tpost
        \<and> list_all isWhiteSpace pre \<and> list_all isWhiteSpace post
        \<and> toLowerCase name = toLowerCase core \<longrightarrow>
      navigateLoop env remote getFocusedAppTestId (pre @ name @ post)
          (normalise (Some (pre @ name @ post))) maxSteps i s = (True, s1))
   \<and> (invoke env getFocusedTestId sv = (currentTestId, sv1) \<longrightarrow>
        (\<exists>s'. videoRailSearchPass env remote getFocusedTestId appName j previousTestId sv
               = Break s')
        = (currentTestId = Some appName))"
proof (intro conjI impI)
  assume h: "i < maxSteps \<and> invoke env getFocusedAppTestId s = (currentId, s1)"
  show "(navigateLoop env remote getFocusedAppTestId appName (normalise (Some appName))
           maxSteps i s = (True, s1))
        = (truthy currentId \<and> normalise currentId = normalise (Some appName))"
  proof (cases "truthy currentId \<and> normalise currentId = normalise (Some appName)")
    case True
    with h show ?thesis by (subst navigateLoop.simps) simp
  next
    case False
    with h navigateLoop_later[of i maxSteps env getFocusedAppTestId s currentId s1
                                 "normalise (Some appName)" remote appName]
    show ?thesis by blast
  qed
next
  assume h: "i < maxSteps
        \<and> invoke env getFocusedAppTestId s = (Some (tpre @ core @ tpost), s1)
        \<and> tpre @ core @ tpost \<noteq> []
        \<and> list_all isWhiteSpace tpre \<and> list_all isWhiteSpace tpost
        \<and> list_all isWhiteSpace pre \<and> list_all isWhiteSpace post
        \<and> toLowerCase name = toLowerCase core"
  then have "normalise (Some (pre @ name @ post)) = normalise (Some (tpre @ core @ tpost))"
    by (simp add: normalise_padding)
  with h show "navigateLoop env remote getFocusedAppTestId (pre @ name @ post)
        (normalise (Some (pre @ name @ post))) maxSteps i s = (True, s1)"
    by (subst navigateLoop.simps) simp
next
  assume "invoke env getFocusedTestId sv = (currentTestId, sv1)"
  then show "(\<exists>s'. videoRailSearchPass env remote getFocusedTestId appName j previousTestId sv
               = Break s')
        = (currentTestId = Some appName)"
    by (auto simp: videoRailSearchPass_def split: prod.splits)
qed

theorem favourites_search_normalises_witness:
  "navigateLoop scripted RemoteControl script ''X '' (normalise (Some ''X '')) 5 0
     (page [Some ''X''])
   = (True, \<lparr>ui = [Some ''X''], clock = 0, trace = [Polled (Some ''X'')]\<rparr>)
   \<and> navigateLoop scripted RemoteControl script ''x'' (normalise (Some ''x'')) 5 0
     (page [Some ''X ''])
   = (True, \<lparr>ui = [Some ''X ''], clock = 0, trace = [Polled (Some ''X '')]\<rparr>)
   \<and> navigateLoop scripted RemoteControl script (''X'' @ [CHR 0xA0])
     (normalise (Some (''X'' @ [CHR 0xA0]))) 5 0 (page [Some ''X''])
   = (True, \<lparr>ui = [Some ''X''], clock = 0, trace = [Polled (Some ''X'')]\<rparr>)
   \<and> (\<exists>s'. videoRailSearchPass scripted RemoteControl script ''X'' 0 None (page [Some ''X''])
             = Break s')"
proof -
  let ?s1 = "\<lparr>ui = [Some ''X''], clock = 0, trace = [Polled (Some ''X'')]\<rparr>"
  let ?t1 = "\<lparr>ui = [Some ''X ''], clock = 0, trace = [Polled (Some ''X '')]\<rparr>"
  have a: "invoke scripted script (page [Some ''X'']) = (Some ''X'', ?s1)"
    by (simp add: run_defs)
  have a': "invoke scripted script (page [Some ''X '']) = (Some ''X '', ?t1)"
    by (simp add: run_defs)
  have b: "list_all isWhiteSpace []" "list_all isWhiteSpace '' ''"
    "list_all isWhiteSpace [CHR 0xA0]"
    by (simp_all add: isWhiteSpace_def)
  have c: "toLowerCase ''x'' = toLowerCase ''X''" by code_simp
  from favourites_search_normalises
         [where i = 0 and maxSteps = 5 and env = scripted and getFocusedAppTestId = script
            and s = "page [Some ''X'']" and ?s1.0 = ?s1 and tpre = "[]" and core = "''X''"
            and tpost = "[]" and pre = "[]" and name = "''X''" and post = "'' ''"
            and remote = RemoteControl
            and getFocusedTestId = script and sv = "page [Some ''X'']"
            and currentTestId = "Some ''X''" and ?sv1.0 = ?s1 and appName = "''X''" and j = 0
            and previousTestId = None]
       a b
  have first: "navigateLoop scripted RemoteControl script ''X '' (normalise (Some ''X '')) 5 0
       (page [Some ''X'']) = (True, ?s1)"
    and video: "\<exists>s'. videoRailSearchPass scripted RemoteControl script ''X'' 0 None
                       (page [Some ''X'']) = Break s'"
    by simp_all
  from favourites_search_normalises
         [where i = 0 and maxSteps = 5 and env = scripted and getFocusedAppTestId = script
            and s = "page [Some ''X '']" and ?s1.0 = ?t1 and tpre = "[]" and core = "''X''"
            and tpost = "'' ''" and pre = "[]" and name = "''x''" and post = "[]"
            and remote = RemoteControl]
       a' b c
  have second: "navigateLoop scripted RemoteControl script ''x'' (normalise (Some ''x'')) 5 0
       (page [Some ''X '']) = (True, ?t1)"
    by simp
  from favourites_search_normalises
         [where i = 0 and maxSteps = 5 and env = scripted and getFocusedAppTestId = script
            and s = "page [Some ''X'']" and ?s1.0 = ?s1 and tpre = "[]" and core = "''X''"
            and tpost = "[]" and pre = "[]" and name = "''X''" and post = "[CHR 0xA0]"
            and remote = RemoteControl]
       a b
  have third: "navigateLoop scripted RemoteControl script (''X'' @ [CHR 0xA0])
       (normalise (Some (''X'' @ [CHR 0xA0]))) 5 0 (page [Some ''X'']) = (True, ?s1)"
    by simp
  from first second third video show ?thesis by simp
qed

text \<open>The accessor always answers \<open>X\<close> and the target is \<open>X\<close> with a trailing space:
  the Video rail search does not break out as found, and the function returns false.\<close>

theorem video_rail_search_counterexample:
  "videoRailSearchPass scripted RemoteControl script ''X '' 0 None (page [Some ''X''])
     \<noteq> Break \<lparr>ui = [Some ''X''], clock = 0, trace = [Polled (Some ''X'')]\<rparr>
   \<and> fst (addAppToFavoritesFromAppsPage scripted RemoteControl ''X '' (page [Some ''X'']))
     = Inr False"
  by (simp add: run_defs videoRailSearchPass_def addAppToFavoritesFromAppsPage_def
        isVideoRailItemFocused_def downLoop.simps videoRailSearch.simps
        MAX_DOWN_STEPS_def MAX_APP_SEARCH_STEPS_def)

subsection \<open>C3: what \<open>waitForFocusChange\<close> returns\<close>

text \<open>
  C3. \<open>waitForFocusChange\<close> polls the accessor at the fixed polling interval and returns
  the first polled token that differs from \<open>previous\<close> as soon as it is observed; if no
  differing token is observed before the timeout elapses it returns \<open>previous\<close>; the result
  is a plain token either way. Exactly: with \<open>pollRound\<close> one round of a poll and a wait of
  \<open>POLLING_INTERVAL\<close>, there is a number \<open>k\<close> of rounds such that each of them began with
  less than \<open>timeout\<close> elapsed and polled \<open>previous\<close>, the calls made are those \<open>k\<close> rounds,
  and after them either less than \<open>timeout\<close> has elapsed, and then one more poll answers
  the differing token \<open>r\<close>, which is returned with the session that poll leaves, or
  \<open>timeout\<close> has elapsed, and then no further poll is made and \<open>previous\<close> is returned.
  Hence, when every poll that begins with less than \<open>timeout\<close> elapsed answers
  \<open>previous\<close>, the result is \<open>previous\<close>. In particular, when the accessor answers
  \<open>a\<close>, \<open>a\<close>, \<open>b\<close> on its first three polls and the third poll begins before the
  timeout has elapsed, \<open>b\<close> is returned.
\<close>

theorem awaitChange_first_differing_poll:
  "(waitForFocusChange env getValueFn previous timeout s = (r, s') \<longrightarrow>
      (\<exists>k. (\<forall>j<k. clock ((pollRound env getValueFn ^^ j) s) - clock s < timeout
                  \<and> fst (invoke env getValueFn ((pollRound env getValueFn ^^ j) s)) = previous)
          \<and> trace ((pollRound env getValueFn ^^ k) s)
              = trace s @ concat (replicate k [Polled previous, WaitForTimeout POLLING_INTERVAL])
          \<and> (if clock ((pollRound env getValueFn ^^ k) s) - clock s < timeout
             then invoke env getValueFn ((pollRound env getValueFn ^^ k) s) = (r, s')
                  \<and> r \<noteq> previous
                  \<and> trace s' = trace ((pollRound env getValueFn ^^ k) s) @ [Polled r]
             else r = previous \<and> s' = (pollRound env getValueFn ^^ k) s)))
   \<and> (waitForFocusChange env getValueFn previous timeout s = (r, s')
        \<and> (\<forall>j. clock ((pollRound env getValueFn ^^ j) s) - clock s < timeout \<longrightarrow>
                fst (invoke env getValueFn ((pollRound env getValueFn ^^ j) s)) = previous)
        \<longrightarrow> r = previous)
   \<and> (invoke env getValueFn s = (Some a, s1)
        \<and> invoke env getValueFn (waitForTimeout env POLLING_INTERVAL s1) = (Some a, s2)
        \<and> invoke env getValueFn (waitForTimeout env POLLING_INTERVAL s2) = (Some b, s3)
        \<and> a \<noteq> b
        \<and> clock (waitForTimeout env POLLING_INTERVAL s2) - clock s < timeout \<longrightarrow>
      waitForFocusChange env getValueFn (Some a) timeout s = (Some b, s3))"
proof (intro conjI impI)
  assume "waitForFocusChange env getValueFn previous timeout s = (r, s')"
  then have "pollLoop env getValueFn previous timeout (clock s) s = (r, s')"
    by (simp add: waitForFocusChange_def)
  from pollLoop_rounds[OF this] obtain k where
    before: "\<forall>j<k. clock ((pollRound env getValueFn ^^ j) s) - clock s < timeout
                  \<and> fst (invoke env getValueFn ((pollRound env getValueFn ^^ j) s)) = previous"
    and at: "if clock ((pollRound env getValueFn ^^ k) s) - clock s < timeout
             then invoke env getValueFn ((pollRound env getValueFn ^^ k) s) = (r, s')
                  \<and> r \<noteq> previous
             else r = previous \<and> s' = (pollRound env getValueFn ^^ k) s"
    by blast
  from before have tr: "trace ((pollRound env getValueFn ^^ k) s)
      = trace s @ concat (replicate k [Polled previous, WaitForTimeout POLLING_INTERVAL])"
    by (intro pollRound_funpow_trace) simp
  have at': "if clock ((pollRound env getValueFn ^^ k) s) - clock s < timeout
             then invoke env getValueFn ((pollRound env getValueFn ^^ k) s) = (r, s')
                  \<and> r \<noteq> previous
                  \<and> trace s' = trace ((pollRound env getValueFn ^^ k) s) @ [Polled r]
             else r = previous \<and> s' = (pollRound env getValueFn ^^ k) s"
    using at by (auto dest: invoke_trace)
  from before tr at'
  show "\<exists>k. (\<forall>j<k. clock ((pollRound env getValueFn ^^ j) s) - clock s < timeout
                  \<and> fst (invoke env getValueFn ((pollRound env getValueFn ^^ j) s)) = previous)
          \<and> trace ((pollRound env getValueFn ^^ k) s)
              = trace s @ concat (replicate k [Polled previous, WaitForTimeout POLLING_INTERVAL])
          \<and> (if clock ((pollRound env getValueFn ^^ k) s) - clock s < timeout
             then invoke env getValueFn ((pollRound env getValueFn ^^ k) s) = (r, s')
                  \<and> r \<noteq> previous
                  \<and> trace s' = trace ((pollRound env getValueFn ^^ k) s) @ [Polled r]
             else r = previous \<and> s' = (pollRound env getValueFn ^^ k) s)"
    by blast
next
  assume h: "waitForFocusChange env getValueFn previous timeout s = (r, s')
        \<and> (\<forall>j. clock ((pollRound env getValueFn ^^ j) s) - clock s < timeout \<longrightarrow>
                fst (invoke env getValueFn ((pollRound env getValueFn ^^ j) s)) = previous)"
  then have "pollLoop env getValueFn previous timeout (clock s) s = (r, s')"
    by (simp add: waitForFocusChange_def)
  from pollLoop_rounds[OF this] obtain k where
    at: "if clock ((pollRound env getValueFn ^^ k) s) - clock s < timeout
             then invoke env getValueFn ((pollRound env getValueFn ^^ k) s) = (r, s')
                  \<and> r \<noteq> previous
             else r = previous \<and> s' = (pollRound env getValueFn ^^ k) s"
    by blast
  show "r = previous"
  proof (cases "clock ((pollRound env getValueFn ^^ k) s) - clock s < timeout")
    case True
    with h have "fst (invoke env getValueFn ((pollRound env getValueFn ^^ k) s)) = previous"
      by blast
    with at True show ?thesis by simp
  next
    case False
    with at show ?thesis by simp
  qed
next
  let ?w1 = "waitForTimeout env POLLING_INTERVAL s1"
  let ?w2 = "waitForTimeout env POLLING_INTERVAL s2"
  assume seq: "invoke env getValueFn s = (Some a, s1)
        \<and> invoke env getValueFn ?w1 = (Some a, s2)
        \<and> invoke env getValueFn ?w2 = (Some b, s3)
        \<and> a \<noteq> b
        \<and> clock ?w2 - clock s < timeout"
  then have p1: "invoke env getValueFn s = (Some a, s1)"
    and p2: "invoke env getValueFn ?w1 = (Some a, s2)"
    and p3: "invoke env getValueFn ?w2 = (Some b, s3)"
    and ab: "a \<noteq> b" and t3: "clock ?w2 - clock s < timeout"
    by simp_all
  have m1: "clock s \<le> clock ?w1"
    using invoke_clock[OF p1] waitForTimeout_clock[of s1 POLLING_INTERVAL env] by linarith
  have m2: "clock ?w1 \<le> clock ?w2"
    using invoke_clock[OF p2] waitForTimeout_clock[of s2 POLLING_INTERVAL env] by linarith
  have t1: "clock s - clock s < timeout" using t3 m1 m2 by linarith
  have t2: "clock ?w1 - clock s < timeout" using t3 m2 by linarith
  have "waitForFocusChange env getValueFn (Some a) timeout s
          = pollLoop env getValueFn (Some a) timeout (clock s) s"
    by (simp add: waitForFocusChange_def)
  also have "\<dots> = pollLoop env getValueFn (Some a) timeout (clock s) ?w1"
    by (rule waitForFocusChange_step[OF t1 p1])
  also have "\<dots> = pollLoop env getValueFn (Some a) timeout (clock s) ?w2"
    by (rule waitForFocusChange_step[OF t2 p2])
  also have "\<dots> = (Some b, s3)"
    using t3 p3 ab by (subst pollLoop.simps) simp
  finally show "waitForFocusChange env getValueFn (Some a) timeout s = (Some b, s3)" .
qed

theorem awaitChange_first_differing_poll_witness:
  "waitForFocusChange scripted script (Some ''A'') 500
     (page [Some ''A'', Some ''A'', Some ''B''])
   = (Some ''B'',
      \<lparr>ui = [Some ''B''], clock = 100,
       trace = [Polled (Some ''A''), WaitForTimeout 50, Polled (Some ''A''),
                WaitForTimeout 50, Polled (Some ''B'')]\<rparr>)
   \<and> fst (waitForFocusChange sluggish script (Some ''A'') 500
            (page [Some ''A'', Some ''A'', Some ''B''])) = Some ''A''"
proof -
  let ?s0 = "page [Some ''A'', Some ''A'', Some ''B'']"
  have quick: "waitForFocusChange scripted script (Some ''A'') 500 ?s0
   = (Some ''B'',
      \<lparr>ui = [Some ''B''], clock = 100,
       trace = [Polled (Some ''A''), WaitForTimeout 50, Polled (Some ''A''),
                WaitForTimeout 50, Polled (Some ''B'')]\<rparr>)"
    using awaitChange_first_differing_poll
      [where env = scripted and getValueFn = script and timeout = 500
         and s = ?s0 and a = "''A''" and b = "''B''"
         and ?s1.0 = "\<lparr>ui = [Some ''A'', Some ''B''], clock = 0, trace = [Polled (Some ''A'')]\<rparr>"
         and ?s2.0 = "\<lparr>ui = [Some ''B''], clock = 50,
                   trace = [Polled (Some ''A''), WaitForTimeout 50, Polled (Some ''A'')]\<rparr>"
         and ?s3.0 = "\<lparr>ui = [Some ''B''], clock = 100,
                   trace = [Polled (Some ''A''), WaitForTimeout 50, Polled (Some ''A''),
                            WaitForTimeout 50, Polled (Some ''B'')]\<rparr>"]
    by (simp add: invoke_def settle_def waitForTimeout_def scripted_def script_def page_def
          POLLING_INTERVAL_def)
  let ?f = "pollRound sluggish script"
  let ?S1 = "\<lparr>ui = [Some ''A'', Some ''B''], clock = 450,
              trace = [Polled (Some ''A''), WaitForTimeout 50]\<rparr>"
  let ?S2 = "\<lparr>ui = [Some ''B''], clock = 900,
              trace = [Polled (Some ''A''), WaitForTimeout 50, Polled (Some ''A''),
                       WaitForTimeout 50]\<rparr>"
  have one: "?f ?s0 = ?S1"
    by (simp add: pollRound_def sluggish_def run_defs)
  have two: "?f ?S1 = ?S2"
    by (simp add: pollRound_def sluggish_def run_defs)
  have p0: "fst (invoke sluggish script ?s0) = Some ''A''"
    by (simp add: sluggish_def run_defs)
  have p1: "fst (invoke sluggish script ?S1) = Some ''A''"
    by (simp add: sluggish_def run_defs)
  have slow: "clock ((?f ^^ j) ?s0) - clock ?s0 < 500 \<longrightarrow>
              fst (invoke sluggish script ((?f ^^ j) ?s0)) = Some ''A''" for j
  proof (cases "j < 2")
    case True
    then have "j = 0 \<or> j = 1" by auto
    then show ?thesis using p0 p1 one by auto
  next
    case False
    then obtain m where j: "j = m + 2" by (metis add.commute le_Suc_ex not_less)
    have "(?f ^^ 2) ?s0 = ?S2" by (simp add: numeral_2_eq_2 one two)
    moreover have "(?f ^^ (m + 2)) ?s0 = (?f ^^ m) ((?f ^^ 2) ?s0)"
      by (simp only: funpow_add o_apply)
    ultimately have "(?f ^^ j) ?s0 = (?f ^^ m) ?S2"
      unfolding j by simp
    moreover have "clock ?S2 \<le> clock ((?f ^^ m) ?S2)" by (rule pollRound_funpow_clock)
    ultimately have "900 \<le> clock ((?f ^^ j) ?s0)" by simp
    then show ?thesis by (simp add: page_def)
  qed
  have "fst (waitForFocusChange sluggish script (Some ''A'') 500 ?s0) = Some ''A''"
    using awaitChange_first_differing_poll
      [where env = sluggish and getValueFn = script and previous = "Some ''A''"
         and timeout = 500 and s = ?s0
         and r = "fst (waitForFocusChange sluggish script (Some ''A'') 500 ?s0)"
         and s' = "snd (waitForFocusChange sluggish script (Some ''A'') 500 ?s0)"]
      slow
    by simp
  with quick show ?thesis by simp
qed

subsection \<open>C4: the end of the rail\<close>

text \<open>
  C4. For every pass of the search loop (any counter \<open>i\<close> below \<open>maxSteps\<close>, any session)
  in which the token awaited after the right move equals the token read before it, the
  search stops there: it returns \<open>False\<close> as an ordinary value, its last act is the warning
  with the context of the end of the rail, and the only key sent from that pass on is the
  one right move already made. Once the rail is visible, what \<open>navigateToApp\<close> returns is
  the loop's answer as a value, never an error.
\<close>

theorem end_of_collection_is_result_data:
  assumes "i < maxSteps"
    and "invoke env getFocusedAppTestId s = (currentId, s1)"
    and "\<not> (truthy currentId \<and> normalise currentId = target)"
    and "waitForFocusChange env getFocusedAppTestId currentId FOCUS_CHANGE
           (moveRight env remote 1 s1) = (currentId, s2)"
  shows "navigateLoop env remote getFocusedAppTestId appName target maxSteps i s
           = (False, logNavigationFailure endOfRail appName currentId s2)
       \<and> commands (trace (logNavigationFailure endOfRail appName currentId s2))
           = commands (trace s) @ [Press RIGHT]
       \<and> last (trace (logNavigationFailure endOfRail appName currentId s2))
           = ConsoleWarn (navigationFailureMessage endOfRail appName currentId)
       \<and> (await env (Visible favouriteAppsRail) s' = (True, s0) \<longrightarrow>
            fst (navigateToApp env remote appName budget s')
              = Inr (fst (navigateLoop env remote
                            (createTestIdFocusGetter env favouriteAppsRail focusSelectorDefault)
                            appName (normalise (Some appName)) budget 0 s0)))"
proof (intro conjI impI)
  assume "await env (Visible favouriteAppsRail) s' = (True, s0)"
  then show "fst (navigateToApp env remote appName budget s')
              = Inr (fst (navigateLoop env remote
                            (createTestIdFocusGetter env favouriteAppsRail focusSelectorDefault)
                            appName (normalise (Some appName)) budget 0 s0))"
    by (simp add: navigateToApp_visible)
next
  show "navigateLoop env remote getFocusedAppTestId appName target maxSteps i s
           = (False, logNavigationFailure endOfRail appName currentId s2)"
    using assms by (subst navigateLoop.simps) simp
  show "commands (trace (logNavigationFailure endOfRail appName currentId s2))
           = commands (trace s) @ [Press RIGHT]"
    using waitForFocusChange_commands[OF assms(4)] invoke_commands[OF assms(2)]
    by (simp add: logNavigationFailure_commands moveRight_def pressKey_commands)
  show "last (trace (logNavigationFailure endOfRail appName currentId s2))
           = ConsoleWarn (navigationFailureMessage endOfRail appName currentId)"
    by (simp add: logNavigationFailure_trace)
qed

theorem end_of_collection_is_result_data_witness:
  "navigateLoop scripted RemoteControl script ''y'' ''y'' 5 0 (page [Some ''X''])
     = (False,
        logNavigationFailure endOfRail ''y'' (Some ''X'')
          (snd (waitForFocusChange scripted script (Some ''X'') FOCUS_CHANGE
                  (moveRight scripted RemoteControl 1
                     \<lparr>ui = [Some ''X''], clock = 0, trace = [Polled (Some ''X'')]\<rparr>))))
   \<and> commands (trace (snd (navigateLoop scripted RemoteControl script ''y'' ''y'' 5 0
                               (page [Some ''X''])))) = [Press RIGHT]"
proof -
  let ?s1 = "\<lparr>ui = [Some ''X''], clock = 0, trace = [Polled (Some ''X'')]\<rparr>"
  let ?w = "waitForFocusChange scripted script (Some ''X'') FOCUS_CHANGE
              (moveRight scripted RemoteControl 1 ?s1)"
  have a: "(0::int) < 5" by simp
  have b: "invoke scripted script (page [Some ''X'']) = (Some ''X'', ?s1)"
    by (simp add: run_defs)
  have c: "\<not> (truthy (Some ''X'') \<and> normalise (Some ''X'') = ''y'')"
    by code_simp
  have d: "?w = (Some ''X'', snd ?w)"
    by (simp add: run_defs)
  from end_of_collection_is_result_data[OF a b c d, of "''y''"]
  show ?thesis by (simp add: page_def)
qed

subsection \<open>C5: the step budget\<close>

text \<open>
  C5. For every non-negative \<open>maxSteps\<close>, every page and every accessor behaviour,
  \<open>navigateToApp\<close> returns (it is a total function: both loops are defined by well-founded
  recursion, the inner one on the time left, the outer one on the steps left) and the keys
  it sends are \<open>k\<close> right moves with \<open>k \<le> maxSteps\<close>, whether or not the target is there.
\<close>

theorem search_within_step_budget:
  assumes "0 \<le> maxSteps"
  shows "\<exists>r s' k. navigateToApp env remote appName maxSteps s = (r, s')
           \<and> int k \<le> maxSteps
           \<and> commands (trace s') = commands (trace s) @ replicate k (Press RIGHT)"
proof -
  obtain visible s0 where aw: "await env (Visible favouriteAppsRail) s = (visible, s0)"
    by force
  show ?thesis
  proof (cases visible)
    case False
    with aw have "navigateToApp env remote appName maxSteps s
        = (Inl (TimeoutError (Visible favouriteAppsRail)), s0)"
      by (simp add: navigateToApp_hidden)
    moreover have "commands (trace s0) = commands (trace s) @ replicate 0 (Press RIGHT)"
      using await_commands[OF aw] by simp
    ultimately show ?thesis using assms by (intro exI[of _ 0] exI conjI) auto
  next
    case True
    let ?g = "createTestIdFocusGetter env favouriteAppsRail focusSelectorDefault"
    let ?run = "navigateLoop env remote ?g appName (normalise (Some appName)) maxSteps 0 s0"
    from navigateLoop_commands[of maxSteps 0 env remote ?g appName "normalise (Some appName)" s0]
    obtain k where k: "int k \<le> max 0 (maxSteps - 0)"
      "commands (trace (snd ?run)) = commands (trace s0) @ replicate k (Press RIGHT)"
      by blast
    have "navigateToApp env remote appName maxSteps s = (Inr (fst ?run), snd ?run)"
      using True aw by (simp add: navigateToApp_visible)
    moreover have "int k \<le> maxSteps" using k(1) assms by simp
    moreover have "commands (trace (snd ?run)) = commands (trace s) @ replicate k (Press RIGHT)"
      using k(2) await_commands[OF aw] by simp
    ultimately show ?thesis by blast
  qed
qed

theorem search_within_step_budget_witness:
  "(0::int) \<le> 5 \<and>
   (\<exists>r s' k. navigateToApp scripted RemoteControl ''y'' 5 (page [Some ''X'']) = (r, s')
       \<and> int k \<le> 5
       \<and> commands (trace s') = commands (trace (page [Some ''X''])) @ replicate k (Press RIGHT))"
  using search_within_step_budget [of 5 scripted RemoteControl "''y''" "page [Some ''X'']"]
  by simp

subsection \<open>C6: null and empty tokens\<close>

text \<open>
  C6, as the code has it. \<open>navigateToApp\<close> guards the comparison with the truthiness of
  the token (\<^verbatim>\<open>currentId && ...\<close>), so a \<^verbatim>\<open>null\<close> or empty token is special-cased: it never
  matches, whatever the target. The loop returns \<open>True\<close> only on a poll that answered a
  non-empty token whose normalisation equals the target, and after every poll that answered
  \<^verbatim>\<open>null\<close> or the empty string, with steps left, the next thing sent is a right move. For a
  \<^verbatim>\<open>null\<close> first token and an empty target the search is therefore not Found.
\<close>

theorem falsy_token_never_matches:
  "(navigateLoop env remote getFocusedAppTestId appName target maxSteps i s = (True, s') \<longrightarrow>
      (\<exists>t es. t \<noteq> [] \<and> normalise (Some t) = target
            \<and> trace s' = trace s @ es @ [Polled (Some t)]))
   \<and> (i < maxSteps \<and> invoke env getFocusedAppTestId s = (currentId, s1)
        \<and> \<not> truthy currentId \<longrightarrow>
      (\<exists>ks. commands (trace (snd (navigateLoop env remote getFocusedAppTestId appName target
                                     maxSteps i s)))
             = commands (trace s) @ Press RIGHT # ks))"
  using navigateLoop_found[of env remote getFocusedAppTestId appName target maxSteps i s s']
    navigateLoop_moves_on[of i maxSteps env getFocusedAppTestId s currentId s1 target remote appName]
  by blast

theorem falsy_token_never_matches_witness:
  "(\<exists>t es. t \<noteq> [] \<and> normalise (Some t) = normalise (Some '''')
       \<and> [Polled (Some '' '')] = [] @ es @ [Polled (Some t)])
   \<and> (\<exists>ks. commands (trace (snd (navigateLoop scripted RemoteControl script ''''
                                   (normalise (Some '''')) 5 0 (page [None]))))
             = commands (trace (page [None :: string option])) @ Press RIGHT # ks)"
proof -
  have a: "navigateLoop scripted RemoteControl script '''' (normalise (Some '''')) 5 0
             (page [Some '' ''])
           = (True, \<lparr>ui = [Some '' ''], clock = 0, trace = [Polled (Some '' '')]\<rparr>)"
  proof -
    have "normalise (Some '' '') = normalise (Some '''')" by code_simp
    then show ?thesis by (simp add: run_defs navigateLoop.simps)
  qed
  have b: "(0::int) < 5 \<and> invoke scripted script (page [None])
             = (None, \<lparr>ui = [None], clock = 0, trace = [Polled None]\<rparr>) \<and> \<not> truthy None"
    by (simp add: run_defs)
  from falsy_token_never_matches
         [where env = scripted and remote = RemoteControl and getFocusedAppTestId = script
            and appName = "''''" and target = "normalise (Some '''')" and maxSteps = 5 and i = 0
            and s = "page [Some '' '']"
            and s' = "\<lparr>ui = [Some '' ''], clock = 0, trace = [Polled (Some '' '')]\<rparr>"]
       a
  have first: "\<exists>t es. t \<noteq> [] \<and> normalise (Some t) = normalise (Some '''')
       \<and> [Polled (Some '' '')] = [] @ es @ [Polled (Some t)]"
    by (simp add: page_def)
  from falsy_token_never_matches
         [where env = scripted and remote = RemoteControl and getFocusedAppTestId = script
            and appName = "''''" and target = "normalise (Some '''')" and maxSteps = 5 and i = 0
            and s = "page [None]" and s' = "page [None]" and currentId = None
            and ?s1.0 = "\<lparr>ui = [None], clock = 0, trace = [Polled None]\<rparr>"]
       b
  have second: "\<exists>ks. commands (trace (snd (navigateLoop scripted RemoteControl script ''''
                                   (normalise (Some '''')) 5 0 (page [None]))))
             = commands (trace (page [None :: string option])) @ Press RIGHT # ks"
    by auto
  from first second show ?thesis by blast
qed

text \<open>A \<^verbatim>\<open>null\<close> first token and an empty target: both normalise to the empty string, and the
  answer is \<open>False\<close>.\<close>

theorem null_token_empty_target_counterexample:
  "fst (createTestIdFocusGetter scripted favouriteAppsRail focusSelectorDefault [None]) = None
   \<and> normalise None = normalise (Some '''')
   \<and> fst (navigateToApp scripted RemoteControl '''' 5 (page [None])) = Inr False"
  by (simp add: run_defs navigateToApp_def navigateLoop.simps normalise_def)

subsection \<open>C7: names that are not menu items\<close>

lemma unknown_name_fails_fast:
  "getProperty menuName = None \<Longrightarrow>
   navigateToMenuItemByName env remote menuName maxSteps s = (Inl (UnknownMenuItem menuName), s)"
  by (simp add: navigateToMenuItemByName_def)

text \<open>
  C7 at the name \<open>constructor\<close>. It is not a key of \<open>menuItems\<close>, yet the property read
  finds \<^verbatim>\<open>Object.prototype.constructor\<close>, which is truthy: \<open>navigateToMenuItemByName\<close> does
  not reject the name as unknown and sends Up twice before it fails.
\<close>

theorem inherited_name_is_not_rejected:
  "map_of menuItems ''constructor'' = None
   \<and> fst (navigateToMenuItemByName env remote ''constructor'' maxSteps s)
       \<noteq> Inl (UnknownMenuItem ''constructor'')
   \<and> commands (trace (snd (navigateToMenuItemByName env remote ''constructor'' maxSteps s)))
       = commands (trace s) @ [Press UP, Press UP]"
proof -
  have own: "map_of menuItems ''constructor'' = None"
    by (simp add: menuItems_def)
  then have inherited: "getProperty ''constructor'' = Some Inherited"
    by (simp add: getProperty_def objectPrototype_def)
  obtain atHome s1 where
    aw: "await env (focusedCondition homeItem) (moveUp env remote 2 s) = (atHome, s1)"
    by force
  have c1: "commands (trace s1) = commands (trace s) @ [Press UP, Press UP]"
    using await_commands[OF aw] by (simp add: moveUp_commands numeral_2_eq_2)
  have run: "navigateToMenuItemByName env remote ''constructor'' maxSteps s
      = (if atHome then Inl NotALocator else Inl (ExpectFailed (focusedCondition homeItem)), s1)"
    using inherited aw by (simp add: navigateToMenuItemByName_def)
  show ?thesis using own c1 unfolding run by simp
qed

subsection \<open>C8: direction and steps in the menu bar\<close>

lemma menuLoop_trace:
  "(\<And>s. trace (move s) = trace s @ mv) \<Longrightarrow>
   \<exists>vs fin. trace (menuLoop env l move bound i s)
             = trace s @ concat (map (\<lambda>v. GetAttribute l ''data-focused'' v # mv) vs) @ fin
           \<and> list_all (\<lambda>v. v \<noteq> Some ''focused'') vs
           \<and> (fin = [] \<and> int (length vs) = max 0 (bound - i)
               \<or> fin = [GetAttribute l ''data-focused'' (Some ''focused'')]
                 \<and> int (length vs) < max 0 (bound - i))"
proof (induction env l move bound i s rule: menuLoop.induct)
  case (1 env l move bound i s)
  show ?case
  proof (cases "i < bound")
    case False
    then show ?thesis
      by (intro exI[of _ "[]"]) (simp add: menuLoop.simps)
  next
    case inside: True
    obtain isFocused s1 where rd: "readAttribute env l ''data-focused'' s = (isFocused, s1)"
      by force
    show ?thesis
    proof (cases "isFocused = Some ''focused''")
      case True
      with inside rd have "menuLoop env l move bound i s = s1"
        by (subst menuLoop.simps) simp
      with True inside readAttribute_trace[OF rd] show ?thesis
        by (intro exI[of _ "[]"] exI[of _ "[GetAttribute l ''data-focused'' (Some ''focused'')]"])
           simp
    next
      case False
      from "1.IH"[OF inside rd[symmetric] False "1.prems"]
      obtain vs fin where rest:
        "trace (menuLoop env l move bound (i + 1) (move s1))
           = trace (move s1) @ concat (map (\<lambda>v. GetAttribute l ''data-focused'' v # mv) vs) @ fin"
        "list_all (\<lambda>v. v \<noteq> Some ''focused'') vs"
        "fin = [] \<and> int (length vs) = max 0 (bound - (i + 1))
           \<or> fin = [GetAttribute l ''data-focused'' (Some ''focused'')]
             \<and> int (length vs) < max 0 (bound - (i + 1))"
        by blast
      have unfold: "menuLoop env l move bound i s = menuLoop env l move bound (i + 1) (move s1)"
        using inside rd False by (subst menuLoop.simps) simp
      have tr: "trace (move s1) = trace s @ (GetAttribute l ''data-focused'' isFocused # mv)"
        using readAttribute_trace[OF rd] by (simp add: "1.prems")
      show ?thesis
        unfolding unfold
        using rest tr False inside
        by (intro exI[of _ "isFocused # vs"] exI[of _ fin]) auto
    qed
  qed
qed

lemma getProperty_own:
  "map_of menuItems menuName = Some entry \<Longrightarrow> getProperty menuName = Some (Own entry)"
  by (simp add: getProperty_def)

text \<open>
  C8. For every name that is a key of \<open>menuItems\<close>, with \<open>entry\<close> its value, the calls of
  \<open>navigateToMenuItemByName\<close> are: Up twice, the check that Home is focused, and, when it
  is, a list of rounds, each one read of the target's \<^verbatim>\<open>data-focused\<close> attribute that did
  not answer \<open>focused\<close> followed by one move, the key being Right when
  \<open>index entry > 1\<close> (Home's index) and Left otherwise. There are at most
  \<open>min \<bar>index entry - 1\<bar> maxSteps\<close> rounds: either exactly that many, or fewer and then one
  more read that answered \<open>focused\<close> and stopped the loop before any further move. The
  final check that the target is focused decides between the locator and a failure. For
  \<open>Apps\<close> the index is 6: the key is Right, the steps are 5, and at most 5 moves are made.
\<close>

theorem resolveMenu_direction_and_steps:
  assumes "map_of menuItems menuName = Some entry"
  shows
   "(fst (navigateToMenuItemByName env remote menuName maxSteps s)
       = Inl (ExpectFailed (focusedCondition homeItem))
     \<and> trace (snd (navigateToMenuItemByName env remote menuName maxSteps s))
       = trace s @ keyPressEvents remote UP @ keyPressEvents remote UP
           @ [Awaited (focusedCondition homeItem) False]
     \<or> (\<exists>vs fin focused.
           trace (snd (navigateToMenuItemByName env remote menuName maxSteps s))
             = trace s @ keyPressEvents remote UP @ keyPressEvents remote UP
                 @ [Awaited (focusedCondition homeItem) True]
                 @ concat (map (\<lambda>v. GetAttribute (item entry) ''data-focused'' v
                                       # keyPressEvents remote
                                           (if index entry > 1 then RIGHT else LEFT)) vs)
                 @ fin @ [Awaited (focusedCondition (item entry)) focused]
           \<and> list_all (\<lambda>v. v \<noteq> Some ''focused'') vs
           \<and> int (length vs) \<le> max 0 (min \<bar>index entry - 1\<bar> maxSteps)
           \<and> (fin = [] \<and> int (length vs) = max 0 (min \<bar>index entry - 1\<bar> maxSteps)
               \<or> fin = [GetAttribute (item entry) ''data-focused'' (Some ''focused'')])
           \<and> fst (navigateToMenuItemByName env remote menuName maxSteps s)
               = (if focused then Inr (item entry)
                  else Inl (ExpectFailed (focusedCondition (item entry))))))
    \<and> (menuName = ''Apps'' \<longrightarrow>
          (if index entry > 1 then RIGHT else LEFT) = RIGHT
          \<and> \<bar>index entry - 1\<bar> = 5
          \<and> max 0 (min \<bar>index entry - 1\<bar> maxSteps) \<le> 5)"
proof (intro conjI impI)
  let ?key = "if index entry > 1 then RIGHT else LEFT"
  let ?bound = "min \<bar>index entry - 1\<bar> maxSteps"
  let ?run = "navigateToMenuItemByName env remote menuName maxSteps s"
  obtain atHome s1 where
    aw: "await env (focusedCondition homeItem) (moveUp env remote 2 s) = (atHome, s1)"
    by force
  have t1: "trace s1 = trace s @ keyPressEvents remote UP @ keyPressEvents remote UP
                         @ [Awaited (focusedCondition homeItem) atHome]"
    using await_trace[OF aw] by (simp add: moveUp_def pressKey_trace numeral_2_eq_2)
  let ?reached = "\<lambda>vs fin focused.
       trace (snd ?run)
         = trace s @ keyPressEvents remote UP @ keyPressEvents remote UP
             @ [Awaited (focusedCondition homeItem) True]
             @ concat (map (\<lambda>v. GetAttribute (item entry) ''data-focused'' v
                                   # keyPressEvents remote ?key) vs)
             @ fin @ [Awaited (focusedCondition (item entry)) focused]
       \<and> list_all (\<lambda>v. v \<noteq> Some ''focused'') vs
       \<and> int (length vs) \<le> max 0 ?bound
       \<and> (fin = [] \<and> int (length vs) = max 0 ?bound
           \<or> fin = [GetAttribute (item entry) ''data-focused'' (Some ''focused'')])
       \<and> fst ?run = (if focused then Inr (item entry)
                      else Inl (ExpectFailed (focusedCondition (item entry))))"
  show "fst ?run = Inl (ExpectFailed (focusedCondition homeItem))
     \<and> trace (snd ?run)
       = trace s @ keyPressEvents remote UP @ keyPressEvents remote UP
           @ [Awaited (focusedCondition homeItem) False]
     \<or> (\<exists>vs fin focused. ?reached vs fin focused)"
  proof (cases atHome)
    case False
    then have "?run = (Inl (ExpectFailed (focusedCondition homeItem)), s1)"
      using aw getProperty_own[OF assms] by (simp add: navigateToMenuItemByName_def)
    with t1 False show ?thesis by simp
  next
    case True
    let ?s2 = "menuLoop env (item entry) (pressKeyMultiple env remote ?key 1) ?bound 0 s1"
    obtain focused s3 where
      fin: "await env (focusedCondition (item entry)) ?s2 = (focused, s3)" by force
    have run: "?run = (if focused then Inr (item entry)
                       else Inl (ExpectFailed (focusedCondition (item entry))), s3)"
      using True aw fin getProperty_own[OF assms]
      by (auto simp del: One_nat_def
               simp: navigateToMenuItemByName_def Let_def moveRight_fun moveLeft_fun)
    have "trace (pressKeyMultiple env remote ?key 1 s) = trace s @ keyPressEvents remote ?key"
      for s by (simp add: pressKey_trace)
    from menuLoop_trace[of "pressKeyMultiple env remote ?key 1" "keyPressEvents remote ?key"
                           env "item entry" ?bound 0 s1, OF this]
    obtain vs fn where
      tr: "trace ?s2 = trace s1
             @ concat (map (\<lambda>v. GetAttribute (item entry) ''data-focused'' v
                                   # keyPressEvents remote ?key) vs) @ fn"
      and ne: "list_all (\<lambda>v. v \<noteq> Some ''focused'') vs"
      and fn: "fn = [] \<and> int (length vs) = max 0 (?bound - 0)
               \<or> fn = [GetAttribute (item entry) ''data-focused'' (Some ''focused'')]
                 \<and> int (length vs) < max 0 (?bound - 0)"
      by blast
    have t3: "trace s3 = trace s @ keyPressEvents remote UP @ keyPressEvents remote UP
                @ [Awaited (focusedCondition homeItem) True]
                @ concat (map (\<lambda>v. GetAttribute (item entry) ''data-focused'' v
                                      # keyPressEvents remote ?key) vs)
                @ fn @ [Awaited (focusedCondition (item entry)) focused]"
      using await_trace[OF fin] tr t1 True by simp
    have len: "int (length vs) \<le> max 0 ?bound" using fn by auto
    have fn': "fn = [] \<and> int (length vs) = max 0 ?bound
           \<or> fn = [GetAttribute (item entry) ''data-focused'' (Some ''focused'')]"
      using fn by auto
    have "?reached vs fn focused"
      unfolding run using t3 ne len fn' by simp
    then show ?thesis by blast
  qed
next
  assume "menuName = ''Apps''"
  with assms have e: "entry = \<lparr>item = appsItem, index = 6\<rparr>"
    by (simp add: menuItems_def)
  show "(if index entry > 1 then RIGHT else LEFT) = RIGHT" using e by simp
  show "\<bar>index entry - 1\<bar> = 5" using e by simp
  show "max 0 (min \<bar>index entry - 1\<bar> maxSteps) \<le> 5" using e by simp
qed

theorem resolveMenu_direction_and_steps_witness:
  "map_of menuItems ''Apps'' = Some \<lparr>item = appsItem, index = 6\<rparr>
   \<and> fst (navigateToMenuItemByName menuBar RemoteControl ''Apps'' 10 (page 3)) = Inr appsItem
   \<and> commands (trace (snd (navigateToMenuItemByName menuBar RemoteControl ''Apps'' 10 (page 3))))
       = [Press UP, Press UP, Press RIGHT, Press RIGHT, Press RIGHT, Press RIGHT, Press RIGHT]
   \<and> max 0 (min \<bar>index \<lparr>item = appsItem, index = 6\<rparr> - 1\<bar> 10) \<le> (5::int)"
proof -
  have a: "map_of menuItems ''Apps'' = Some \<lparr>item = appsItem, index = 6\<rparr>"
    by (simp add: menuItems_def)
  have b: "navigateToMenuItemByName menuBar RemoteControl ''Apps'' 10 (page 3)
      = (Inr appsItem,
         \<lparr>ui = 6, clock = 700,
          trace = keyPressEvents RemoteControl UP @ keyPressEvents RemoteControl UP
            @ [Awaited (focusedCondition homeItem) True]
            @ concat (map (\<lambda>v. GetAttribute appsItem ''data-focused'' v
                                  # keyPressEvents RemoteControl RIGHT)
                        (replicate 5 (Some ''false'')))
            @ [] @ [Awaited (focusedCondition appsItem) True]\<rparr>)"
    by (simp add: navigateToMenuItemByName_def getProperty_def menuItems_def menuLoop.simps
          run_defs menuBar_def menuBarKey_def menuBarAttribute_def focusedCondition_def
          keyPressEvents_def numeral_eq_Suc
          searchItem_def homeItem_def tvGuideItem_def channelsItem_def gamingItem_def
          freeItem_def appsItem_def)
  from resolveMenu_direction_and_steps[OF a, of menuBar RemoteControl 10 "page 3"]
  have "max 0 (min \<bar>index \<lparr>item = appsItem, index = 6\<rparr> - 1\<bar> 10) \<le> (5::int)"
    by simp
  moreover have "commands (trace (snd (navigateToMenuItemByName menuBar RemoteControl ''Apps'' 10
                                         (page 3))))
       = [Press UP, Press UP, Press RIGHT, Press RIGHT, Press RIGHT, Press RIGHT, Press RIGHT]"
    unfolding b by (simp add: keyPressEvents_def RemoteControl_def KEY_PRESS_DELAY_def
                      numeral_eq_Suc)
  ultimately show ?thesis using a b by simp
qed

subsection \<open>C9: a timeout that is not positive\<close>

text \<open>
  C9. If \<open>waitForFocusChange\<close> is called with \<open>timeout \<le> 0\<close>, the accessor is never
  invoked and \<open>previousValue\<close> is returned unchanged: the session comes back as it was
  (no poll in its trace, the page untouched), whatever the page would have answered.
\<close>

theorem zero_timeout_reports_no_change:
  assumes "timeout \<le> 0"
  shows "waitForFocusChange env getValueFn previousValue timeout s = (previousValue, s)"
  using assms by (simp add: waitForFocusChange_def pollLoop.simps)

theorem zero_timeout_reports_no_change_witness:
  "(0::int) \<le> 0 \<and>
   waitForFocusChange scripted script (Some ''A'') 0 (page [Some ''B''])
     = (Some ''A'', page [Some ''B''])"
  using zero_timeout_reports_no_change [of 0 scripted script "Some ''A''" "page [Some ''B'']"]
  by simp

subsection \<open>C10: the stall check of the Video rail search\<close>




end
